theory Spec2Isabelle
  imports Main
begin

section \<open>Data model (types.ts, constants.ts)\<close>

text \<open>
  \<^verbatim>\<open>type Player = 'X' | 'O'\<close> and \<^verbatim>\<open>type Winner = Player | 'Draw' | null\<close>.
  A non-null \<open>Winner\<close> is an \<open>Outcome\<close>; \<open>null\<close> is \<open>None\<close>. A \<open>Player\<close> used where a
  \<open>Winner\<close> is expected is \<open>Mark p\<close>.
\<close>

text \<open>\<open>'X'\<close> is \<open>PX\<close> and \<open>'O'\<close> is \<open>PO\<close>.\<close>

datatype Player = PX | PO

datatype Outcome = Mark Player | Draw

type_synonym Winner = "Outcome option"

text \<open>The field \<open>winner\<close> of \<open>SmallBoardState\<close> is \<open>bwinner\<close> here; \<open>winner\<close> is the field of \<open>GameState\<close>.\<close>

record SmallBoardState =
  cells :: "Player option list"
  bwinner :: Winner

record MoveHistory =
  boardIndex :: nat
  cellIndex :: nat
  player :: Player

text \<open>
  A move \<^verbatim>\<open>{ boardIndex, cellIndex }\<close> is the pair \<open>(boardIndex, cellIndex)\<close>. The program
  uses the two numbers as array indices only; they are natural numbers here.
\<close>

type_synonym Move = "nat \<times> nat"

datatype Difficulty = Easy | Medium | Hard | Impossible | Other

record GameState =
  boards :: "SmallBoardState list"
  macroBoard :: "Winner list"
  activeBoard :: "nat option"
  currentPlayer :: Player
  winner :: Winner
  history :: "MoveHistory list"
  difficulty :: "Difficulty option"
  lastMove :: "Move option"

text \<open>
  What the model raises. \<open>TypeError\<close>: a property of \<open>undefined\<close> is read (an array was
  indexed out of range and a field of the result accessed). \<open>Timeout\<close>: the error thrown by
  \<open>minimax\<close>. \<open>ArrayGrowth\<close> is not an error of the program: \<open>makeMove\<close> writes past the end
  of an array, which JavaScript answers by growing the array with holes. The lists of this
  model have no holes, so the model stops there and says so: \<open>ArrayGrowth\<close> is passed on
  by every caller and caught by none. No state with 9 boards of 9 cells and 9 macro cells
  gets there (lemma \<open>makeMove_no_growth\<close>), so no state built from \<open>INITIAL_GAME_STATE\<close> by
  \<open>makeMove\<close> does.
\<close>

datatype error = TypeError | Timeout | ArrayGrowth

definition WINNING_PATTERNS :: "(nat \<times> nat \<times> nat) list" where
  "WINNING_PATTERNS =
     [(0, 1, 2), (3, 4, 5), (6, 7, 8),
      (0, 3, 6), (1, 4, 7), (2, 5, 8),
      (0, 4, 8), (2, 4, 6)]"

definition emptyBoard :: SmallBoardState where
  "emptyBoard = \<lparr>cells = replicate 9 None, bwinner = None\<rparr>"

definition INITIAL_GAME_STATE :: GameState where
  "INITIAL_GAME_STATE =
     \<lparr>boards = replicate 9 emptyBoard,
      macroBoard = replicate 9 None,
      activeBoard = None,
      currentPlayer = PX,
      winner = None,
      history = [],
      difficulty = None,
      lastMove = None\<rparr>"

section \<open>Rules engine (services/gameLogic.ts)\<close>

text \<open>
  \<open>xs[i]\<close> read in JavaScript: \<open>undefined\<close> out of range. Every read modelled with \<open>at\<close> is
  only tested for truthiness or compared with a non-null value, where \<open>undefined\<close> and
  \<open>null\<close> behave alike, so both are \<open>None\<close>.
\<close>

definition at :: "'a option list \<Rightarrow> nat \<Rightarrow> 'a option" where
  "at xs i = (if i < length xs then xs ! i else None)"

text \<open>\<^verbatim>\<open>xs[i] === null\<close>: false out of range, where the read is \<open>undefined\<close>.\<close>

definition isNull :: "'a option list \<Rightarrow> nat \<Rightarrow> bool" where
  "isNull xs i = (i < length xs \<and> xs ! i = None)"

text \<open>\<^verbatim>\<open>cells.every(c => c !== null)\<close>\<close>

definition allFilled :: "'a option list \<Rightarrow> bool" where
  "allFilled xs = list_all (\<lambda>c. c \<noteq> None) xs"

text \<open>
  The loop of \<open>checkBoardWinner\<close> over the patterns: the value of the first pattern whose
  three cells hold the same truthy value, \<open>None\<close> when the loop ends without returning.
\<close>

fun firstLine :: "Winner list \<Rightarrow> (nat \<times> nat \<times> nat) list \<Rightarrow> Winner" where
  "firstLine cs [] = None"
| "firstLine cs ((a, b, c) # ps) =
     (if at cs a \<noteq> None \<and> at cs a = at cs b \<and> at cs a = at cs c then at cs a
      else firstLine cs ps)"

definition checkBoardWinner :: "Winner list \<Rightarrow> Winner" where
  "checkBoardWinner cs =
     (case firstLine cs WINNING_PATTERNS of
        Some w \<Rightarrow> Some w
      | None \<Rightarrow> if allFilled cs then Some Draw else None)"

text \<open>The cells of a small board, passed where \<^verbatim>\<open>(Player | Winner | null)[]\<close> is expected.\<close>

definition asWinners :: "Player option list \<Rightarrow> Winner list" where
  "asWinners cs = map (map_option Mark) cs"

definition isMoveValid :: "GameState \<Rightarrow> nat \<Rightarrow> nat \<Rightarrow> error + bool" where
  "isMoveValid state bIdx cIdx =
     (if winner state \<noteq> None then Inr False
      else if activeBoard state \<noteq> None \<and> activeBoard state \<noteq> Some bIdx then Inr False
      else if length (boards state) \<le> bIdx then Inl TypeError
      else
        let targetBoard = boards state ! bIdx in
        if bwinner targetBoard \<noteq> None then Inr False
        else if \<not> isNull (cells targetBoard) cIdx then Inr False
        else Inr True)"

definition otherPlayer :: "Player \<Rightarrow> Player" where
  "otherPlayer p = (if p = PX then PO else PX)"

text \<open>
  \<open>makeMove\<close> copies the boards, writes the cell, and builds the next state. It reads
  \<open>newBoards[boardIndex].cells\<close> and \<open>newBoards[cellIndex].winner\<close>: each throws when the
  index is past the end of \<open>boards\<close>. The second read comes after the writes, which are to
  copies that the throw discards. The two writes, \<open>cells[cellIndex]\<close> and
  \<open>newMacroBoard[boardIndex]\<close>, are \<open>ArrayGrowth\<close> when they land past the end of an array
  that the returned state would hold.
\<close>

definition makeMove :: "GameState \<Rightarrow> nat \<Rightarrow> nat \<Rightarrow> error + GameState" where
  "makeMove state bIdx cIdx =
     (if length (boards state) \<le> bIdx then Inl TypeError
      else if length (boards state) \<le> cIdx then Inl TypeError
      else
        let currentBoard = boards state ! bIdx in
        if length (cells currentBoard) \<le> cIdx then Inl ArrayGrowth
        else
          let newCells = (cells currentBoard)[cIdx := Some (currentPlayer state)];
              smallBoardWinner = checkBoardWinner (asWinners newCells)
          in
          if smallBoardWinner \<noteq> None \<and> length (macroBoard state) \<le> bIdx then Inl ArrayGrowth
          else
            let newBoards =
                  (boards state)[bIdx :=
                     (if smallBoardWinner \<noteq> None
                      then currentBoard\<lparr>cells := newCells, bwinner := smallBoardWinner\<rparr>
                      else currentBoard\<lparr>cells := newCells\<rparr>)];
                newMacroBoard =
                  (if smallBoardWinner \<noteq> None then (macroBoard state)[bIdx := smallBoardWinner]
                   else macroBoard state);
                globalWinner = checkBoardWinner newMacroBoard;
                nextActiveBoard =
                  (if bwinner (newBoards ! cIdx) \<noteq> None \<or> allFilled (cells (newBoards ! cIdx))
                   then None else Some cIdx)
            in
            Inr \<lparr>boards = newBoards,
                 macroBoard = newMacroBoard,
                 activeBoard = nextActiveBoard,
                 currentPlayer = otherPlayer (currentPlayer state),
                 winner = globalWinner,
                 history = history state @
                   [\<lparr>boardIndex = bIdx, cellIndex = cIdx, player = currentPlayer state\<rparr>],
                 difficulty = difficulty state,
                 lastMove = Some (bIdx, cIdx)\<rparr>)"

text \<open>
  The inner loop of \<open>getAvailableMoves\<close>: the empty cells of one board among indices 0 to 8
  (\<^verbatim>\<open>board.cells[cIdx] === null\<close>).
\<close>

definition emptyCellsOf :: "SmallBoardState \<Rightarrow> nat list" where
  "emptyCellsOf board = filter (\<lambda>cIdx. isNull (cells board) cIdx) [0..<9]"

fun movesOfBoards :: "GameState \<Rightarrow> nat list \<Rightarrow> error + Move list" where
  "movesOfBoards state [] = Inr []"
| "movesOfBoards state (bIdx # rest) =
     (if length (boards state) \<le> bIdx then Inl TypeError
      else
        let board = boards state ! bIdx;
            here = (if bwinner board \<noteq> None then []
                    else map (\<lambda>cIdx. (bIdx, cIdx)) (emptyCellsOf board))
        in case movesOfBoards state rest of
             Inl e \<Rightarrow> Inl e
           | Inr ms \<Rightarrow> Inr (here @ ms))"

definition getAvailableMoves :: "GameState \<Rightarrow> error + Move list" where
  "getAvailableMoves state =
     movesOfBoards state (case activeBoard state of Some a \<Rightarrow> [a] | None \<Rightarrow> [0..<9])"

text \<open>The loop of \<open>reconstructGameState\<close>; a throw of \<open>makeMove\<close> ends it.\<close>

fun applyMoves :: "GameState \<Rightarrow> MoveHistory list \<Rightarrow> error + GameState" where
  "applyMoves state [] = Inr state"
| "applyMoves state (m # ms) =
     (case makeMove state (boardIndex m) (cellIndex m) of
        Inl e \<Rightarrow> Inl e
      | Inr state' \<Rightarrow> applyMoves state' ms)"

definition reconstructGameState :: "MoveHistory list \<Rightarrow> Difficulty option \<Rightarrow> error + GameState" where
  "reconstructGameState moves initialDifficulty =
     applyMoves (INITIAL_GAME_STATE\<lparr>difficulty := initialDifficulty\<rparr>) moves"

section \<open>Decision engine (services/ai.ts)\<close>

definition WIN_SCORE :: int where "WIN_SCORE = 10000000"
definition MAX_DEPTH_IMPOSSIBLE :: nat where "MAX_DEPTH_IMPOSSIBLE = 12"

text \<open>The table \<open>W\<close>. The position multipliers are written 5.0, 3.0 and 1.0 in the source.\<close>

definition LINE_2 :: int where "LINE_2 = 10"
definition LINE_1 :: int where "LINE_1 = 1"
definition BLOCK_OPP_2 :: int where "BLOCK_OPP_2 = 15"
definition BOARD_WON :: int where "BOARD_WON = 150"
definition BOARD_LOST :: int where "BOARD_LOST = - 150"
definition MACRO_WIN_THREAT :: int where "MACRO_WIN_THREAT = 5000"
definition MACRO_BLOCK_THREAT :: int where "MACRO_BLOCK_THREAT = 6000"
definition MACRO_LINE_1 :: int where "MACRO_LINE_1 = 200"
definition MACRO_CENTER :: int where "MACRO_CENTER = 5"
definition MACRO_CORNER :: int where "MACRO_CORNER = 3"
definition MACRO_EDGE :: int where "MACRO_EDGE = 1"
definition GIVE_FREE_MOVE :: int where "GIVE_FREE_MOVE = - 5000"
definition SEND_TO_WINNABLE :: int where "SEND_TO_WINNABLE = - 4000"

definition getMacroWeight :: "nat \<Rightarrow> int" where
  "getMacroWeight idx =
     (if idx = 4 then MACRO_CENTER
      else if idx = 0 \<or> idx = 2 \<or> idx = 6 \<or> idx = 8 then MACRO_CORNER
      else MACRO_EDGE)"

text \<open>
  Scores are JavaScript numbers; all of them are integers far below \<open>2^53\<close>, or one of the
  two infinities that the searches start from.
\<close>

datatype Score = NegInf | Fin int | PosInf

fun sless :: "Score \<Rightarrow> Score \<Rightarrow> bool" where
  "sless (Fin a) (Fin b) = (a < b)"
| "sless NegInf NegInf = False"
| "sless NegInf _ = True"
| "sless _ NegInf = False"
| "sless PosInf _ = False"
| "sless _ PosInf = True"

definition sle :: "Score \<Rightarrow> Score \<Rightarrow> bool" where
  "sle a b = (\<not> sless b a)"

definition smax :: "Score \<Rightarrow> Score \<Rightarrow> Score" where
  "smax a b = (if sless a b then b else a)"

definition smin :: "Score \<Rightarrow> Score \<Rightarrow> Score" where
  "smin a b = (if sless b a then b else a)"

text \<open>
  \<^verbatim>\<open>copy = [...xs]; copy[i] = v\<close>. Past the end JavaScript grows the copy and leaves holes,
  which read as \<open>undefined\<close>. The copies made this way are only passed to
  \<open>checkBoardWinner\<close> and the result compared with a player, which the line check alone
  decides, and there a hole is as good as \<open>null\<close>.
\<close>

definition jsSet :: "'a option list \<Rightarrow> nat \<Rightarrow> 'a \<Rightarrow> 'a option list" where
  "jsSet xs i v =
     (if i < length xs then xs[i := Some v]
      else xs @ replicate (i - length xs) None @ [Some v])"

definition canWinBoard :: "Player option list \<Rightarrow> Player \<Rightarrow> bool" where
  "canWinBoard cs p =
     list_ex (\<lambda>i. isNull cs i \<and> checkBoardWinner (asWinners (jsSet cs i p)) = Some (Mark p))
       [0..<9]"

text \<open>How many of the three indices of a pattern hold \<open>v\<close>.\<close>

definition countIn :: "'a option list \<Rightarrow> nat \<times> nat \<times> nat \<Rightarrow> 'a \<Rightarrow> nat" where
  "countIn xs pat v = (case pat of (a, b, c) \<Rightarrow> length (filter (\<lambda>i. at xs i = Some v) [a, b, c]))"

fun smallLoop :: "Player option list \<Rightarrow> Player \<Rightarrow> Player \<Rightarrow> (nat \<times> nat \<times> nat) list \<Rightarrow> int \<Rightarrow> int" where
  "smallLoop cs p opp [] s = s"
| "smallLoop cs p opp (pat # pats) s =
     (let pCount = countIn cs pat p; oCount = countIn cs pat opp in
      smallLoop cs p opp pats
        (if pCount > 0 \<and> oCount = 0 then (if pCount = 2 then s + LINE_2 else s + LINE_1)
         else if oCount > 0 \<and> pCount = 0 then (if oCount = 2 then s - LINE_2 else s - LINE_1)
         else if oCount = 2 \<and> pCount = 1 then s + BLOCK_OPP_2
         else s))"

definition evaluateSmallBoardRaw :: "Player option list \<Rightarrow> Player \<Rightarrow> Player \<Rightarrow> int" where
  "evaluateSmallBoardRaw cs p opp =
     (let s0 = (if at cs 4 = Some p then 5 else 0);
          s1 = (if at cs 4 = Some opp then s0 - 5 else s0)
      in smallLoop cs p opp WINNING_PATTERNS s1)"

text \<open>
  The first loop of \<open>evaluateStateAdvanced\<close>, over the lines of the macro board. It either
  returns from the function (\<open>Returned\<close>) or ends with the score so far (\<open>Summed\<close>).
\<close>

datatype MacroScan = Returned int | Summed int

fun macroLoop :: "Winner list \<Rightarrow> Player \<Rightarrow> Player \<Rightarrow> (nat \<times> nat \<times> nat) list \<Rightarrow> int \<Rightarrow> MacroScan" where
  "macroLoop mb p opp [] score = Summed score"
| "macroLoop mb p opp (pat # pats) score =
     (let pCount = countIn mb pat (Mark p);
          oCount = countIn mb pat (Mark opp);
          draws = countIn mb pat Draw
      in
      if draws = 0 then
        if pCount = 3 then Returned WIN_SCORE
        else if oCount = 3 then Returned (- WIN_SCORE)
        else macroLoop mb p opp pats
          (if pCount = 2 \<and> oCount = 0 then score + MACRO_WIN_THREAT
           else if oCount = 2 \<and> pCount = 0 then score - MACRO_BLOCK_THREAT
           else if pCount = 1 \<and> oCount = 0 then score + MACRO_LINE_1
           else if oCount = 1 \<and> pCount = 0 then score - MACRO_LINE_1
           else score)
      else macroLoop mb p opp pats score)"

fun boardsLoop :: "GameState \<Rightarrow> Player \<Rightarrow> Player \<Rightarrow> nat list \<Rightarrow> int \<Rightarrow> error + int" where
  "boardsLoop state p opp [] score = Inr score"
| "boardsLoop state p opp (i # rest) score =
     (if length (boards state) \<le> i then Inl TypeError
      else
        let board = boards state ! i; weight = getMacroWeight i in
        boardsLoop state p opp rest
          (if bwinner board = Some (Mark p) then score + BOARD_WON * weight
           else if bwinner board = Some (Mark opp) then score + BOARD_LOST * weight
           else if bwinner board = Some Draw then score - 20
           else score + evaluateSmallBoardRaw (cells board) p opp * weight))"

definition tactical :: "GameState \<Rightarrow> Player \<Rightarrow> int \<Rightarrow> error + int" where
  "tactical state opp score =
     (if currentPlayer state = opp then
        (case activeBoard state of
           None \<Rightarrow> Inr (score + GIVE_FREE_MOVE)
         | Some a \<Rightarrow>
             if length (boards state) \<le> a then Inl TypeError
             else if canWinBoard (cells (boards state ! a)) opp then Inr (score + SEND_TO_WINNABLE)
             else Inr score)
      else Inr score)"

definition evaluateStateAdvanced :: "GameState \<Rightarrow> Player \<Rightarrow> error + int" where
  "evaluateStateAdvanced state p =
     (let opp = otherPlayer p in
      case macroLoop (macroBoard state) p opp WINNING_PATTERNS 0 of
        Returned v \<Rightarrow> Inr v
      | Summed score \<Rightarrow>
          (case boardsLoop state p opp [0..<9] score of
             Inl e \<Rightarrow> Inl e
           | Inr score' \<Rightarrow> tactical state opp score'))"

subsection \<open>Move ordering\<close>

text \<open>The score that the callback of \<open>orderMoves\<close> gives one move.\<close>

definition orderScore :: "GameState \<Rightarrow> Player \<Rightarrow> Move \<Rightarrow> error + int" where
  "orderScore state p m =
     (case m of (bIdx, cIdx) \<Rightarrow>
        let opp = otherPlayer p;
            s1 = (if checkBoardWinner (jsSet (macroBoard state) bIdx (Mark p)) = Some (Mark p)
                  then WIN_SCORE else 0)
        in
        if length (boards state) \<le> bIdx then Inl TypeError
        else
          let targetBoard = boards state ! bIdx;
              s2 = (if checkBoardWinner (asWinners (jsSet (cells targetBoard) cIdx p)) = Some (Mark p)
                    then s1 + BOARD_WON * getMacroWeight bIdx * 10 else s1)
          in
          if length (boards state) \<le> cIdx then Inl TypeError
          else
            let destBoard = boards state ! cIdx;
                s3 = (if bwinner destBoard \<noteq> None \<or> allFilled (cells destBoard)
                      then s2 + GIVE_FREE_MOVE
                      else if canWinBoard (cells destBoard) opp then s2 + SEND_TO_WINNABLE
                      else s2)
            in Inr (if cIdx = 4 then s3 + 20 else s3))"

fun orderScores :: "GameState \<Rightarrow> Player \<Rightarrow> Move list \<Rightarrow> error + (Move \<times> int) list" where
  "orderScores state p [] = Inr []"
| "orderScores state p (m # ms) =
     (case orderScore state p m of
        Inl e \<Rightarrow> Inl e
      | Inr sc \<Rightarrow>
          (case orderScores state p ms of
             Inl e \<Rightarrow> Inl e
           | Inr items \<Rightarrow> Inr ((m, sc) # items)))"

text \<open>
  \<^verbatim>\<open>.sort((a, b) => b.score - a.score)\<close>: descending by score, and stable, as the
  language has required of \<open>Array.prototype.sort\<close> since ES2019. \<open>sort_key\<close> is the
  stable insertion sort of the library.
\<close>

definition orderMoves :: "GameState \<Rightarrow> Move list \<Rightarrow> Player \<Rightarrow> error + Move list" where
  "orderMoves state moves p =
     (case orderScores state p moves of
        Inl e \<Rightarrow> Inl e
      | Inr items \<Rightarrow> Inr (map fst (sort_key (\<lambda>item. - snd item) items)))"

subsection \<open>Minimax\<close>

text \<open>
  The clock. \<open>minimax\<close> and \<open>getImpossibleMove\<close> read \<open>performance.now()\<close> and compare the
  time elapsed with \<open>TIME_LIMIT_MS\<close>. The clock never runs backwards, so a run is described
  by how many of these checks still find the budget unspent: the clock of the model is that
  number. A check on clock \<open>0\<close> finds the budget spent; any other check passes and leaves
  one check fewer.
\<close>

type_synonym Clock = nat

text \<open>
  The two loops of \<open>minimax\<close> over the moves; \<open>search\<close> is the recursive call on the next
  state with the current window.
\<close>

fun maxLoop ::
  "(GameState \<Rightarrow> Score \<Rightarrow> Score \<Rightarrow> Clock \<Rightarrow> error + Score \<times> Clock) \<Rightarrow> GameState \<Rightarrow> Move list \<Rightarrow>
     Score \<Rightarrow> Score \<Rightarrow> Score \<Rightarrow> Clock \<Rightarrow> error + Score \<times> Clock" where
  "maxLoop search state [] alpha beta maxEval clk = Inr (maxEval, clk)"
| "maxLoop search state (m # ms) alpha beta maxEval clk =
     (case makeMove state (fst m) (snd m) of
        Inl e \<Rightarrow> Inl e
      | Inr nextState \<Rightarrow>
          (case search nextState alpha beta clk of
             Inl e \<Rightarrow> Inl e
           | Inr (evalScore, clk') \<Rightarrow>
               let maxEval' = smax maxEval evalScore; alpha' = smax alpha evalScore in
               if sle beta alpha' then Inr (maxEval', clk')
               else maxLoop search state ms alpha' beta maxEval' clk'))"

fun minLoop ::
  "(GameState \<Rightarrow> Score \<Rightarrow> Score \<Rightarrow> Clock \<Rightarrow> error + Score \<times> Clock) \<Rightarrow> GameState \<Rightarrow> Move list \<Rightarrow>
     Score \<Rightarrow> Score \<Rightarrow> Score \<Rightarrow> Clock \<Rightarrow> error + Score \<times> Clock" where
  "minLoop search state [] alpha beta minEval clk = Inr (minEval, clk)"
| "minLoop search state (m # ms) alpha beta minEval clk =
     (case makeMove state (fst m) (snd m) of
        Inl e \<Rightarrow> Inl e
      | Inr nextState \<Rightarrow>
          (case search nextState alpha beta clk of
             Inl e \<Rightarrow> Inl e
           | Inr (evalScore, clk') \<Rightarrow>
               let minEval' = smin minEval evalScore; beta' = smin beta evalScore in
               if sle beta' alpha then Inr (minEval', clk')
               else minLoop search state ms alpha beta' minEval' clk'))"

text \<open>What \<open>minimax\<close> does before it looks at the depth.\<close>

definition terminalScore :: "GameState \<Rightarrow> nat \<Rightarrow> Player \<Rightarrow> Score option" where
  "terminalScore state depth aiPlayer =
     (if winner state = Some (Mark aiPlayer) then Some (Fin (WIN_SCORE + int depth))
      else if winner state \<noteq> None \<and> winner state \<noteq> Some Draw then Some (Fin (- WIN_SCORE - int depth))
      else if winner state = Some Draw then Some (Fin 0)
      else None)"

primrec minimax ::
  "nat \<Rightarrow> GameState \<Rightarrow> Score \<Rightarrow> Score \<Rightarrow> bool \<Rightarrow> Player \<Rightarrow> Clock \<Rightarrow> error + Score \<times> Clock" where
  "minimax 0 state alpha beta isMaximizing aiPlayer clk =
     (case clk of
        0 \<Rightarrow> Inl Timeout
      | Suc clk' \<Rightarrow>
          (case terminalScore state 0 aiPlayer of
             Some v \<Rightarrow> Inr (v, clk')
           | None \<Rightarrow>
               (case evaluateStateAdvanced state aiPlayer of
                  Inl e \<Rightarrow> Inl e
                | Inr v \<Rightarrow> Inr (Fin v, clk'))))"
| "minimax (Suc d) state alpha beta isMaximizing aiPlayer clk =
     (case clk of
        0 \<Rightarrow> Inl Timeout
      | Suc clk' \<Rightarrow>
          (case terminalScore state (Suc d) aiPlayer of
             Some v \<Rightarrow> Inr (v, clk')
           | None \<Rightarrow>
               (case getAvailableMoves state of
                  Inl e \<Rightarrow> Inl e
                | Inr moves \<Rightarrow>
                    if moves = [] then Inr (Fin 0, clk')
                    else if isMaximizing then
                      maxLoop (\<lambda>s a b k. minimax d s a b False aiPlayer k)
                        state moves alpha beta NegInf clk'
                    else
                      minLoop (\<lambda>s a b k. minimax d s a b True aiPlayer k)
                        state moves alpha beta PosInf clk')))"

subsection \<open>The four tiers\<close>

text \<open>
  The loop of \<open>getImpossibleMove\<close> over the moves at the root, for one depth; \<open>search\<close> is the
  call of \<open>minimax\<close> at \<open>depth - 1\<close>, minimizing.
\<close>

fun rootLoop ::
  "(GameState \<Rightarrow> Score \<Rightarrow> Score \<Rightarrow> Clock \<Rightarrow> error + Score \<times> Clock) \<Rightarrow> GameState \<Rightarrow> Move list \<Rightarrow>
     Score \<Rightarrow> Score \<Rightarrow> Move \<Rightarrow> Score \<Rightarrow> Clock \<Rightarrow> error + Move \<times> Score \<times> Clock" where
  "rootLoop search state [] alpha beta curMove curScore clk = Inr (curMove, curScore, clk)"
| "rootLoop search state (m # ms) alpha beta curMove curScore clk =
     (case makeMove state (fst m) (snd m) of
        Inl e \<Rightarrow> Inl e
      | Inr nextState \<Rightarrow>
          (case search nextState alpha beta clk of
             Inl e \<Rightarrow> Inl e
           | Inr (score, clk') \<Rightarrow>
               let curMove' = (if sless curScore score then m else curMove);
                   curScore' = (if sless curScore score then score else curScore);
                   alpha' = smax alpha score
               in
               if sle beta alpha' then Inr (curMove', curScore', clk')
               else rootLoop search state ms alpha' beta curMove' curScore' clk'))"

text \<open>
  The loop over the depths. Whatever is thrown inside the \<open>try\<close> block (the timeout of
  \<open>minimax\<close>, or a \<open>TypeError\<close>) ends the loop with the best move of the depths completed.
  \<open>ArrayGrowth\<close> is not thrown by the program and so is not caught: the model stops with it.
  \<open>sortedMoves\<close> has the entries of \<open>moves\<close>, which is not empty; were it empty, the body
  would leave \<open>bestMove\<close> and \<open>bestScore\<close> as they are.
\<close>

fun depthLoop ::
  "GameState \<Rightarrow> Player \<Rightarrow> nat list \<Rightarrow> Move list \<Rightarrow> Move \<Rightarrow> Score \<Rightarrow> Clock \<Rightarrow>
     error + Move \<times> Score" where
  "depthLoop state aiPlayer [] sortedMoves bestMove bestScore clk = Inr (bestMove, bestScore)"
| "depthLoop state aiPlayer (depth # depths) sortedMoves bestMove bestScore clk =
     (case clk of
        0 \<Rightarrow> Inr (bestMove, bestScore)
      | Suc clk1 \<Rightarrow>
          (case sortedMoves of
             [] \<Rightarrow> Inr (bestMove, bestScore)
           | first # _ \<Rightarrow>
               (case rootLoop (\<lambda>s a b k. minimax (depth - 1) s a b False aiPlayer k)
                       state sortedMoves NegInf PosInf first NegInf clk1 of
                  Inl e \<Rightarrow> if e = ArrayGrowth then Inl ArrayGrowth else Inr (bestMove, bestScore)
                | Inr (curMove, curScore, clk2) \<Rightarrow>
                    depthLoop state aiPlayer depths
                      (curMove #
                         filter (\<lambda>m. fst m \<noteq> fst curMove \<or> snd m \<noteq> snd curMove) sortedMoves)
                      curMove curScore clk2)))"

text \<open>
  What \<open>getBestMove\<close> returns when it is not \<open>null\<close>: the move, and the field \<open>score\<close> where
  the tier sets it. \<open>getImpossibleMove\<close> is only called with the non-empty \<open>moves\<close> of
  \<open>getBestMove\<close>; \<open>m0\<close> is \<open>moves[0]\<close>.
\<close>

type_synonym BestMove = "Move \<times> Score option"

definition getImpossibleMove :: "GameState \<Rightarrow> Move \<Rightarrow> Move list \<Rightarrow> Clock \<Rightarrow> error + BestMove" where
  "getImpossibleMove state m0 moves clk =
     (let aiPlayer = currentPlayer state in
      case orderMoves state moves aiPlayer of
        Inl e \<Rightarrow> Inl e
      | Inr sortedMoves \<Rightarrow>
          (case depthLoop state aiPlayer [1..<Suc MAX_DEPTH_IMPOSSIBLE] sortedMoves m0 NegInf clk of
             Inl e \<Rightarrow> Inl e
           | Inr (bestMove, bestScore) \<Rightarrow> Inr (bestMove, Some bestScore)))"

text \<open>The two loops of the tier \<open>'medium'\<close>.\<close>

fun winLocal :: "GameState \<Rightarrow> Player \<Rightarrow> Move list \<Rightarrow> error + Move option" where
  "winLocal state aiPlayer [] = Inr None"
| "winLocal state aiPlayer (m # ms) =
     (case makeMove state (fst m) (snd m) of
        Inl e \<Rightarrow> Inl e
      | Inr simulatedState \<Rightarrow>
          if bwinner (boards simulatedState ! fst m) = Some (Mark aiPlayer) then Inr (Some m)
          else winLocal state aiPlayer ms)"

fun blockLocal :: "GameState \<Rightarrow> Player \<Rightarrow> Move list \<Rightarrow> error + Move option" where
  "blockLocal state opp [] = Inr None"
| "blockLocal state opp (m # ms) =
     (if length (boards state) \<le> fst m then Inl TypeError
      else if checkBoardWinner (asWinners (jsSet (cells (boards state ! fst m)) (snd m) opp))
                = Some (Mark opp)
      then Inr (Some m)
      else blockLocal state opp ms)"

text \<open>The loop of the tier \<open>'hard'\<close>.\<close>

fun hardLoop :: "GameState \<Rightarrow> Player \<Rightarrow> Move list \<Rightarrow> Score \<Rightarrow> Move \<Rightarrow> error + Move \<times> Score" where
  "hardLoop state aiPlayer [] bestScore bestMove = Inr (bestMove, bestScore)"
| "hardLoop state aiPlayer (m # ms) bestScore bestMove =
     (case makeMove state (fst m) (snd m) of
        Inl e \<Rightarrow> Inl e
      | Inr nextState \<Rightarrow>
          (case evaluateStateAdvanced nextState aiPlayer of
             Inl e \<Rightarrow> Inl e
           | Inr score \<Rightarrow>
               if sless bestScore (Fin score) then hardLoop state aiPlayer ms (Fin score) m
               else hardLoop state aiPlayer ms bestScore bestMove))"

text \<open>
  \<open>getBestMove\<close>. \<open>rnd\<close> stands for \<open>Math.random()\<close>: \<^verbatim>\<open>Math.floor(Math.random() * moves.length)\<close>
  is some index of \<open>moves\<close>, here \<open>rnd mod length moves\<close>. \<open>clk\<close> is the clock of the
  tier \<open>'impossible'\<close>. \<open>Other\<close> is any difficulty that is none of the four strings; a
  call that passes no difficulty is a call with \<open>Medium\<close>, the default of the parameter.
\<close>

definition getBestMove :: "GameState \<Rightarrow> Difficulty \<Rightarrow> nat \<Rightarrow> Clock \<Rightarrow> error + BestMove option" where
  "getBestMove state diff rnd clk =
     (case getAvailableMoves state of
        Inl e \<Rightarrow> Inl e
      | Inr moves \<Rightarrow>
          (case moves of
             [] \<Rightarrow> Inr None
           | m0 # _ \<Rightarrow>
               if diff = Easy then Inr (Some (moves ! (rnd mod length moves), None))
               else
                 let aiPlayer = currentPlayer state; opp = otherPlayer aiPlayer in
                 if diff = Medium then
                   (case winLocal state aiPlayer moves of
                      Inl e \<Rightarrow> Inl e
                    | Inr (Some m) \<Rightarrow> Inr (Some (m, None))
                    | Inr None \<Rightarrow>
                        (case blockLocal state opp moves of
                           Inl e \<Rightarrow> Inl e
                         | Inr (Some m) \<Rightarrow> Inr (Some (m, None))
                         | Inr None \<Rightarrow> Inr (Some (moves ! (rnd mod length moves), None))))
                 else if diff = Hard then
                   (case orderMoves state moves aiPlayer of
                      Inl e \<Rightarrow> Inl e
                    | Inr orderedMoves \<Rightarrow>
                        (case hardLoop state aiPlayer orderedMoves NegInf m0 of
                           Inl e \<Rightarrow> Inl e
                         | Inr (bestMove, bestScore) \<Rightarrow> Inr (Some (bestMove, Some bestScore))))
                 else if diff = Impossible then
                   (case getImpossibleMove state m0 moves clk of
                      Inl e \<Rightarrow> Inl e
                    | Inr r \<Rightarrow> Inr (Some r))
                 else Inr (Some (m0, None))))"

subsection \<open>Move quality\<close>

datatype MoveClassification = Brilliant | Best | Good | Inaccuracy | Blunder | Forced

record Analysis =
  classification :: MoveClassification
  score :: int
  bestMove :: "Move option"

text \<open>\<open>getBestMove\<close> at \<open>'hard'\<close> uses neither the random number nor the clock.\<close>

definition analyzeMoveQuality :: "GameState \<Rightarrow> Move \<Rightarrow> error + Analysis" where
  "analyzeMoveQuality previousState moveMade =
     (let p = currentPlayer previousState in
      case makeMove previousState (fst moveMade) (snd moveMade) of
        Inl e \<Rightarrow> Inl e
      | Inr stateAfterMove \<Rightarrow>
          (case evaluateStateAdvanced stateAfterMove p of
             Inl e \<Rightarrow> Inl e
           | Inr scoreMade \<Rightarrow>
               (case getBestMove previousState Hard 0 0 of
                  Inl e \<Rightarrow> Inl e
                | Inr None \<Rightarrow>
                    Inr \<lparr>classification = Forced, score = scoreMade, bestMove = None\<rparr>
                | Inr (Some (best, _)) \<Rightarrow>
                    (case makeMove previousState (fst best) (snd best) of
                       Inl e \<Rightarrow> Inl e
                     | Inr stateAfterBest \<Rightarrow>
                         (case evaluateStateAdvanced stateAfterBest p of
                            Inl e \<Rightarrow> Inl e
                          | Inr scoreBest \<Rightarrow>
                              let diff = scoreBest - scoreMade;
                                  c0 = (if diff < 50 then Best
                                        else if diff < 300 then Good
                                        else if diff < 2000 then Inaccuracy
                                        else Blunder);
                                  c1 = (if c0 = Best \<and> scoreMade > 1000 \<and> \<bar>scoreBest - scoreMade\<bar> < 10
                                        then Brilliant else c0)
                              in
                              Inr \<lparr>classification = c1, score = scoreMade,
                                   bestMove = (if c1 = Best then None else Some best)\<rparr>)))))"

section \<open>States of a game\<close>

text \<open>
  The shape that \<open>types.ts\<close> gives a \<open>GameState\<close>: 9 small boards of 9 cells, 9 cells of
  the macro board, and an active board that is an index of a board.
\<close>

definition wf_state :: "GameState \<Rightarrow> bool" where
  "wf_state s =
     (length (boards s) = 9 \<and> list_all (\<lambda>b. length (cells b) = 9) (boards s) \<and>
      length (macroBoard s) = 9 \<and> (case activeBoard s of None \<Rightarrow> True | Some a \<Rightarrow> a < 9))"

text \<open>
  The states of play: the initial state, with the difficulty that the caller chose, and every
  state that \<open>makeMove\<close> returns for a move that \<open>isMoveValid\<close> accepts.
\<close>

inductive reachable :: "GameState \<Rightarrow> bool" where
  init: "reachable (INITIAL_GAME_STATE\<lparr>difficulty := d\<rparr>)"
| step: "reachable s \<Longrightarrow> isMoveValid s b c = Inr True \<Longrightarrow> makeMove s b c = Inr s' \<Longrightarrow> reachable s'"

text \<open>The value \<open>v\<close> holds the three cells of a pattern: the line is completed by \<open>v\<close>.\<close>

definition heldBy :: "Winner list \<Rightarrow> nat \<times> nat \<times> nat \<Rightarrow> Outcome \<Rightarrow> bool" where
  "heldBy cs pat v =
     (case pat of (a, b, c) \<Rightarrow> at cs a = Some v \<and> at cs b = Some v \<and> at cs c = Some v)"

text \<open>The value \<open>v\<close> holds one of the 8 patterns.\<close>

definition completedLine :: "Winner list \<Rightarrow> Outcome \<Rightarrow> bool" where
  "completedLine cs v = list_ex (\<lambda>pat. heldBy cs pat v) WINNING_PATTERNS"

text \<open>
  What holds of every state of play: the recorded winner of each small board is what
  \<open>checkBoardWinner\<close> says of its cells, the macro board mirrors these winners, the winner
  of the game is what \<open>checkBoardWinner\<close> says of the macro board, and an active board is
  undecided and has an empty cell.
\<close>

definition inv_state :: "GameState \<Rightarrow> bool" where
  "inv_state s =
     (wf_state s \<and>
      list_all (\<lambda>i. bwinner (boards s ! i) = checkBoardWinner (asWinners (cells (boards s ! i))) \<and>
                    macroBoard s ! i = bwinner (boards s ! i)) [0..<9] \<and>
      winner s = checkBoardWinner (macroBoard s) \<and>
      (case activeBoard s of
         None \<Rightarrow> True
       | Some a \<Rightarrow> bwinner (boards s ! a) = None \<and> \<not> allFilled (cells (boards s ! a))))"

text \<open>
  The score of a move for the player \<open>p\<close>: what \<open>evaluateStateAdvanced\<close> says of the
  state that \<open>makeMove\<close> returns for it.
\<close>

definition moveScore :: "GameState \<Rightarrow> Player \<Rightarrow> Move \<Rightarrow> error + int" where
  "moveScore s p m =
     (case makeMove s (fst m) (snd m) of
        Inl e \<Rightarrow> Inl e
      | Inr s' \<Rightarrow> evaluateStateAdvanced s' p)"

text \<open>
  Replay as the specification words it, a fold of \<open>apply\<close> over the log in order: \<open>redo\<close> is
  one step of the fold, which applies one more entry of the log with \<open>makeMove\<close> unless an
  earlier entry has thrown, and the fold is \<open>foldl redo\<close>.
\<close>

definition redo :: "error + GameState \<Rightarrow> MoveHistory \<Rightarrow> error + GameState" where
  "redo r m =
     (case r of
        Inl e \<Rightarrow> Inl e
      | Inr s \<Rightarrow> makeMove s (boardIndex m) (cellIndex m))"

text \<open>What \<open>reconstructGameState\<close> reads of an entry of the log.\<close>

definition indices :: "MoveHistory \<Rightarrow> Move" where
  "indices m = (boardIndex m, cellIndex m)"

section \<open>Grids used as examples\<close>

text \<open>
  Four full grids, row by row: \<open>XOO/XOX/XXO\<close>, where \<open>X\<close> holds the left column and no row
  is held; \<open>XXX/OXO/OXO\<close>, where only \<open>X\<close> holds lines; \<open>XOX/XOO/OXX\<close>, where nobody
  holds a line; and \<open>XXX/OOO/XOX\<close>, where \<open>X\<close> holds the top row and \<open>O\<close> the middle row.
\<close>

definition columnGrid :: "Winner list" where
  "columnGrid =
     map Some [Mark PX, Mark PO, Mark PO,
               Mark PX, Mark PO, Mark PX,
               Mark PX, Mark PX, Mark PO]"

definition fullWonGrid :: "Winner list" where
  "fullWonGrid =
     map Some [Mark PX, Mark PX, Mark PX,
               Mark PO, Mark PX, Mark PO,
               Mark PO, Mark PX, Mark PO]"

definition fullDrawGrid :: "Winner list" where
  "fullDrawGrid =
     map Some [Mark PX, Mark PO, Mark PX,
               Mark PX, Mark PO, Mark PO,
               Mark PO, Mark PX, Mark PX]"

definition twoLinesGrid :: "Winner list" where
  "twoLinesGrid =
     map Some [Mark PX, Mark PX, Mark PX,
               Mark PO, Mark PO, Mark PO,
               Mark PX, Mark PO, Mark PX]"

section \<open>Games used as examples\<close>

text \<open>
  Playing a list of moves from a state, each move checked with \<open>isMoveValid\<close> before
  \<open>makeMove\<close> is called, as the callers in \<open>App.tsx\<close> do.
\<close>

fun playLegal :: "GameState \<Rightarrow> Move list \<Rightarrow> GameState option" where
  "playLegal s [] = Some s"
| "playLegal s (m # ms) =
     (if isMoveValid s (fst m) (snd m) = Inr True
      then (case makeMove s (fst m) (snd m) of Inl e \<Rightarrow> None | Inr s' \<Rightarrow> playLegal s' ms)
      else None)"

text \<open>A game of 40 legal moves that ends in a draw: the macro board is full and has no line.\<close>

definition drawnLog :: "Move list" where
  "drawnLog =
     [(0, 4), (4, 0), (0, 1), (1, 4), (4, 2), (2, 2), (2, 7), (7, 5), (5, 1), (1, 3),
      (3, 6), (6, 4), (4, 4), (4, 8), (8, 8), (8, 1), (1, 6), (6, 7), (7, 6), (6, 8),
      (8, 6), (6, 6), (7, 8), (8, 3), (3, 8), (8, 4), (4, 6), (5, 4), (0, 7), (7, 0),
      (2, 1), (1, 5), (5, 8), (8, 2), (2, 4), (8, 7), (7, 7), (5, 2), (3, 7), (5, 6)]"

definition drawnState :: GameState where
  "drawnState =
     \<lparr>boards =
       [\<lparr>cells = [None, Some PX, None, None, Some PX, None, None, Some PX, None],
           bwinner = Some (Mark PX)\<rparr>,
        \<lparr>cells = [None, None, None, Some PO, Some PO, Some PO, Some PX, None, None],
           bwinner = Some (Mark PO)\<rparr>,
        \<lparr>cells = [None, Some PX, Some PO, None, Some PX, None, None, Some PX, None],
           bwinner = Some (Mark PX)\<rparr>,
        \<lparr>cells = [None, None, None, None, None, None, Some PX, Some PX, Some PX],
           bwinner = Some (Mark PX)\<rparr>,
        \<lparr>cells = [Some PO, None, Some PX, None, Some PX, None, Some PX, None, Some PO],
           bwinner = Some (Mark PX)\<rparr>,
        \<lparr>cells = [None, Some PX, Some PO, None, Some PO, None, Some PO, None, Some PX],
           bwinner = Some (Mark PO)\<rparr>,
        \<lparr>cells = [None, None, None, None, Some PO, None, Some PO, Some PO, Some PO],
           bwinner = Some (Mark PO)\<rparr>,
        \<lparr>cells = [Some PO, None, None, None, None, Some PO, Some PX, Some PX, Some PX],
           bwinner = Some (Mark PX)\<rparr>,
        \<lparr>cells = [None, Some PO, Some PO, Some PO, Some PO, None, Some PX, Some PO, Some PX],
           bwinner = Some (Mark PO)\<rparr>],
      macroBoard = [Some (Mark PX), Some (Mark PO), Some (Mark PX), Some (Mark PX), Some (Mark PX), Some (Mark PO), Some (Mark PO), Some (Mark PX), Some (Mark PO)],
      activeBoard = None,
      currentPlayer = PX,
      winner = Some Draw,
      history =
       [\<lparr>boardIndex = 0, cellIndex = 4, player = PX\<rparr>,
        \<lparr>boardIndex = 4, cellIndex = 0, player = PO\<rparr>,
        \<lparr>boardIndex = 0, cellIndex = 1, player = PX\<rparr>,
        \<lparr>boardIndex = 1, cellIndex = 4, player = PO\<rparr>,
        \<lparr>boardIndex = 4, cellIndex = 2, player = PX\<rparr>,
        \<lparr>boardIndex = 2, cellIndex = 2, player = PO\<rparr>,
        \<lparr>boardIndex = 2, cellIndex = 7, player = PX\<rparr>,
        \<lparr>boardIndex = 7, cellIndex = 5, player = PO\<rparr>,
        \<lparr>boardIndex = 5, cellIndex = 1, player = PX\<rparr>,
        \<lparr>boardIndex = 1, cellIndex = 3, player = PO\<rparr>,
        \<lparr>boardIndex = 3, cellIndex = 6, player = PX\<rparr>,
        \<lparr>boardIndex = 6, cellIndex = 4, player = PO\<rparr>,
        \<lparr>boardIndex = 4, cellIndex = 4, player = PX\<rparr>,
        \<lparr>boardIndex = 4, cellIndex = 8, player = PO\<rparr>,
        \<lparr>boardIndex = 8, cellIndex = 8, player = PX\<rparr>,
        \<lparr>boardIndex = 8, cellIndex = 1, player = PO\<rparr>,
        \<lparr>boardIndex = 1, cellIndex = 6, player = PX\<rparr>,
        \<lparr>boardIndex = 6, cellIndex = 7, player = PO\<rparr>,
        \<lparr>boardIndex = 7, cellIndex = 6, player = PX\<rparr>,
        \<lparr>boardIndex = 6, cellIndex = 8, player = PO\<rparr>,
        \<lparr>boardIndex = 8, cellIndex = 6, player = PX\<rparr>,
        \<lparr>boardIndex = 6, cellIndex = 6, player = PO\<rparr>,
        \<lparr>boardIndex = 7, cellIndex = 8, player = PX\<rparr>,
        \<lparr>boardIndex = 8, cellIndex = 3, player = PO\<rparr>,
        \<lparr>boardIndex = 3, cellIndex = 8, player = PX\<rparr>,
        \<lparr>boardIndex = 8, cellIndex = 4, player = PO\<rparr>,
        \<lparr>boardIndex = 4, cellIndex = 6, player = PX\<rparr>,
        \<lparr>boardIndex = 5, cellIndex = 4, player = PO\<rparr>,
        \<lparr>boardIndex = 0, cellIndex = 7, player = PX\<rparr>,
        \<lparr>boardIndex = 7, cellIndex = 0, player = PO\<rparr>,
        \<lparr>boardIndex = 2, cellIndex = 1, player = PX\<rparr>,
        \<lparr>boardIndex = 1, cellIndex = 5, player = PO\<rparr>,
        \<lparr>boardIndex = 5, cellIndex = 8, player = PX\<rparr>,
        \<lparr>boardIndex = 8, cellIndex = 2, player = PO\<rparr>,
        \<lparr>boardIndex = 2, cellIndex = 4, player = PX\<rparr>,
        \<lparr>boardIndex = 8, cellIndex = 7, player = PO\<rparr>,
        \<lparr>boardIndex = 7, cellIndex = 7, player = PX\<rparr>,
        \<lparr>boardIndex = 5, cellIndex = 2, player = PO\<rparr>,
        \<lparr>boardIndex = 3, cellIndex = 7, player = PX\<rparr>,
        \<lparr>boardIndex = 5, cellIndex = 6, player = PO\<rparr>],
      difficulty = None,
      lastMove = Some (5, 6)\<rparr>"

text \<open>A game of 23 legal moves that \<open>X\<close> wins with the middle row of the macro board.\<close>

definition wonLog :: "Move list" where
  "wonLog =
     [(4, 3), (3, 4), (4, 6), (6, 2), (2, 1), (1, 5), (5, 4), (4, 4), (4, 0), (0, 5),
      (5, 1), (1, 2), (2, 2), (2, 3), (3, 8), (8, 1), (1, 7), (7, 5), (5, 7), (7, 4),
      (3, 6), (6, 3), (3, 7)]"

definition wonState :: GameState where
  "wonState =
     \<lparr>boards =
       [\<lparr>cells = [None, None, None, None, None, Some PO, None, None, None],
           bwinner = None\<rparr>,
        \<lparr>cells = [None, None, Some PO, None, None, Some PO, None, Some PX, None],
           bwinner = None\<rparr>,
        \<lparr>cells = [None, Some PX, Some PX, Some PO, None, None, None, None, None],
           bwinner = None\<rparr>,
        \<lparr>cells = [None, None, None, None, Some PO, None, Some PX, Some PX, Some PX],
           bwinner = Some (Mark PX)\<rparr>,
        \<lparr>cells = [Some PX, None, None, Some PX, Some PO, None, Some PX, None, None],
           bwinner = Some (Mark PX)\<rparr>,
        \<lparr>cells = [None, Some PX, None, None, Some PX, None, None, Some PX, None],
           bwinner = Some (Mark PX)\<rparr>,
        \<lparr>cells = [None, None, Some PO, Some PO, None, None, None, None, None],
           bwinner = None\<rparr>,
        \<lparr>cells = [None, None, None, None, Some PO, Some PO, None, None, None],
           bwinner = None\<rparr>,
        \<lparr>cells = [None, Some PO, None, None, None, None, None, None, None],
           bwinner = None\<rparr>],
      macroBoard = [None, None, None, Some (Mark PX), Some (Mark PX), Some (Mark PX), None, None, None],
      activeBoard = Some 7,
      currentPlayer = PO,
      winner = Some (Mark PX),
      history =
       [\<lparr>boardIndex = 4, cellIndex = 3, player = PX\<rparr>,
        \<lparr>boardIndex = 3, cellIndex = 4, player = PO\<rparr>,
        \<lparr>boardIndex = 4, cellIndex = 6, player = PX\<rparr>,
        \<lparr>boardIndex = 6, cellIndex = 2, player = PO\<rparr>,
        \<lparr>boardIndex = 2, cellIndex = 1, player = PX\<rparr>,
        \<lparr>boardIndex = 1, cellIndex = 5, player = PO\<rparr>,
        \<lparr>boardIndex = 5, cellIndex = 4, player = PX\<rparr>,
        \<lparr>boardIndex = 4, cellIndex = 4, player = PO\<rparr>,
        \<lparr>boardIndex = 4, cellIndex = 0, player = PX\<rparr>,
        \<lparr>boardIndex = 0, cellIndex = 5, player = PO\<rparr>,
        \<lparr>boardIndex = 5, cellIndex = 1, player = PX\<rparr>,
        \<lparr>boardIndex = 1, cellIndex = 2, player = PO\<rparr>,
        \<lparr>boardIndex = 2, cellIndex = 2, player = PX\<rparr>,
        \<lparr>boardIndex = 2, cellIndex = 3, player = PO\<rparr>,
        \<lparr>boardIndex = 3, cellIndex = 8, player = PX\<rparr>,
        \<lparr>boardIndex = 8, cellIndex = 1, player = PO\<rparr>,
        \<lparr>boardIndex = 1, cellIndex = 7, player = PX\<rparr>,
        \<lparr>boardIndex = 7, cellIndex = 5, player = PO\<rparr>,
        \<lparr>boardIndex = 5, cellIndex = 7, player = PX\<rparr>,
        \<lparr>boardIndex = 7, cellIndex = 4, player = PO\<rparr>,
        \<lparr>boardIndex = 3, cellIndex = 6, player = PX\<rparr>,
        \<lparr>boardIndex = 6, cellIndex = 3, player = PO\<rparr>,
        \<lparr>boardIndex = 3, cellIndex = 7, player = PX\<rparr>],
      difficulty = None,
      lastMove = Some (3, 7)\<rparr>"

text \<open>A position after 6 legal moves: \<open>X\<close> is to move in board 8 and wins it with cell 0 as with cell 4.\<close>

definition tieLog :: "Move list" where
  "tieLog =
     [(8, 2), (2, 8), (8, 7), (7, 8), (8, 1), (1, 8)]"

definition tieState :: GameState where
  "tieState =
     \<lparr>boards =
       [\<lparr>cells = [None, None, None, None, None, None, None, None, None],
           bwinner = None\<rparr>,
        \<lparr>cells = [None, None, None, None, None, None, None, None, Some PO],
           bwinner = None\<rparr>,
        \<lparr>cells = [None, None, None, None, None, None, None, None, Some PO],
           bwinner = None\<rparr>,
        \<lparr>cells = [None, None, None, None, None, None, None, None, None],
           bwinner = None\<rparr>,
        \<lparr>cells = [None, None, None, None, None, None, None, None, None],
           bwinner = None\<rparr>,
        \<lparr>cells = [None, None, None, None, None, None, None, None, None],
           bwinner = None\<rparr>,
        \<lparr>cells = [None, None, None, None, None, None, None, None, None],
           bwinner = None\<rparr>,
        \<lparr>cells = [None, None, None, None, None, None, None, None, Some PO],
           bwinner = None\<rparr>,
        \<lparr>cells = [None, Some PX, Some PX, None, None, None, None, Some PX, None],
           bwinner = None\<rparr>],
      macroBoard = [None, None, None, None, None, None, None, None, None],
      activeBoard = Some 8,
      currentPlayer = PX,
      winner = None,
      history =
       [\<lparr>boardIndex = 8, cellIndex = 2, player = PX\<rparr>,
        \<lparr>boardIndex = 2, cellIndex = 8, player = PO\<rparr>,
        \<lparr>boardIndex = 8, cellIndex = 7, player = PX\<rparr>,
        \<lparr>boardIndex = 7, cellIndex = 8, player = PO\<rparr>,
        \<lparr>boardIndex = 8, cellIndex = 1, player = PX\<rparr>,
        \<lparr>boardIndex = 1, cellIndex = 8, player = PO\<rparr>],
      difficulty = None,
      lastMove = Some (1, 8)\<rparr>"

text \<open>A position after 4 legal moves: \<open>X\<close> is to move in board 0 and wins it with cell 7.\<close>

definition brilliantLog :: "Move list" where
  "brilliantLog =
     [(0, 1), (1, 0), (0, 4), (4, 0)]"

definition brilliantState :: GameState where
  "brilliantState =
     \<lparr>boards =
       [\<lparr>cells = [None, Some PX, None, None, Some PX, None, None, None, None],
           bwinner = None\<rparr>,
        \<lparr>cells = [Some PO, None, None, None, None, None, None, None, None],
           bwinner = None\<rparr>,
        \<lparr>cells = [None, None, None, None, None, None, None, None, None],
           bwinner = None\<rparr>,
        \<lparr>cells = [None, None, None, None, None, None, None, None, None],
           bwinner = None\<rparr>,
        \<lparr>cells = [Some PO, None, None, None, None, None, None, None, None],
           bwinner = None\<rparr>,
        \<lparr>cells = [None, None, None, None, None, None, None, None, None],
           bwinner = None\<rparr>,
        \<lparr>cells = [None, None, None, None, None, None, None, None, None],
           bwinner = None\<rparr>,
        \<lparr>cells = [None, None, None, None, None, None, None, None, None],
           bwinner = None\<rparr>,
        \<lparr>cells = [None, None, None, None, None, None, None, None, None],
           bwinner = None\<rparr>],
      macroBoard = [None, None, None, None, None, None, None, None, None],
      activeBoard = Some 0,
      currentPlayer = PX,
      winner = None,
      history =
       [\<lparr>boardIndex = 0, cellIndex = 1, player = PX\<rparr>,
        \<lparr>boardIndex = 1, cellIndex = 0, player = PO\<rparr>,
        \<lparr>boardIndex = 0, cellIndex = 4, player = PX\<rparr>,
        \<lparr>boardIndex = 4, cellIndex = 0, player = PO\<rparr>],
      difficulty = None,
      lastMove = Some (4, 0)\<rparr>"


section \<open>Shape of the states\<close>

lemma wf_INITIAL: "wf_state (INITIAL_GAME_STATE\<lparr>difficulty := d\<rparr>)"
  by (simp add: wf_state_def INITIAL_GAME_STATE_def emptyBoard_def list_all_length)

lemma wf_INITIAL0: "wf_state INITIAL_GAME_STATE"
  using wf_INITIAL[of None] by (simp add: INITIAL_GAME_STATE_def)

lemma wf_cells: "wf_state s \<Longrightarrow> b < 9 \<Longrightarrow> length (cells (boards s ! b)) = 9"
  by (simp add: wf_state_def list_all_length)

lemma makeMove_Inr:
  assumes "wf_state s" "b < 9" "c < 9"
  shows "\<exists>s'. makeMove s b c = Inr s'"
  using assms wf_cells[of s b] by (simp add: makeMove_def wf_state_def Let_def)

lemma makeMove_wf:
  assumes "wf_state s" "makeMove s b c = Inr s'"
  shows "wf_state s'"
proof -
  from assms have b: "b < 9" and c: "c < 9"
    by (auto simp: makeMove_def wf_state_def Let_def split: if_splits)
  show ?thesis
    using assms b c wf_cells[of s b]
    by (auto simp: makeMove_def wf_state_def Let_def list_all_length nth_list_update
        split: if_splits)
qed

lemma legal_in_range:
  assumes "wf_state s" "isMoveValid s b c = Inr True"
  shows "b < 9 \<and> c < 9 \<and> winner s = None \<and> bwinner (boards s ! b) = None \<and>
    cells (boards s ! b) ! c = None \<and> (activeBoard s = None \<or> activeBoard s = Some b)"
  using assms wf_cells[of s b]
  by (auto simp: isMoveValid_def isNull_def Let_def wf_state_def split: if_splits)

section \<open>Move legality\<close>

text \<open>
  Claim C1. For a board index and a cell index that exist in the state, \<open>isMoveValid\<close>
  returns \<open>false\<close> if the game is decided, if an active board is set and is another board,
  if the target board has a winner, or if the target cell is marked; it returns \<open>true\<close> in
  every other case.
\<close>

theorem isMoveValid_spec:
  assumes "bIdx < length (boards state)" and "cIdx < length (cells (boards state ! bIdx))"
  shows "isMoveValid state bIdx cIdx =
     Inr (\<not> (winner state \<noteq> None
            \<or> (activeBoard state \<noteq> None \<and> activeBoard state \<noteq> Some bIdx)
            \<or> bwinner (boards state ! bIdx) \<noteq> None
            \<or> cells (boards state ! bIdx) ! cIdx \<noteq> None))"
  using assms by (simp add: isMoveValid_def isNull_def Let_def)

theorem isMoveValid_spec_witness:
  "0 < length (boards INITIAL_GAME_STATE) \<and> 0 < length (cells (boards INITIAL_GAME_STATE ! 0)) \<and>
   isMoveValid INITIAL_GAME_STATE 0 0 = Inr True"
  using isMoveValid_spec[of 0 INITIAL_GAME_STATE 0]
  by (simp add: INITIAL_GAME_STATE_def emptyBoard_def)

section \<open>The next active board\<close>

text \<open>
  Claim C2. For a well-formed state and a move that \<open>isMoveValid\<close> accepts, \<open>makeMove\<close>
  returns a state whose active board is the cell index of the move, unless in that state the
  board at the cell index has a winner or is full: then the active board is \<open>null\<close>. The
  board looked at is the one of the state before the move when the move was played in
  another board, and the board with the new mark when the move was played in that board.
\<close>

theorem makeMove_activeBoard:
  assumes "wf_state state" and "isMoveValid state bIdx cIdx = Inr True"
  shows "\<exists>s'. makeMove state bIdx cIdx = Inr s' \<and>
           activeBoard s' =
             (if bwinner (boards s' ! cIdx) \<noteq> None \<or> allFilled (cells (boards s' ! cIdx))
              then None else Some cIdx) \<and>
           (if cIdx = bIdx
            then cells (boards s' ! cIdx) =
                   (cells (boards state ! bIdx))[cIdx := Some (currentPlayer state)]
            else boards s' ! cIdx = boards state ! cIdx)"
proof -
  from legal_in_range[OF assms] have b: "bIdx < 9" and c: "cIdx < 9" by auto
  with assms(1) wf_cells[of state bIdx] show ?thesis
    by (auto simp: makeMove_def wf_state_def Let_def)
qed

theorem makeMove_activeBoard_witness:
  "wf_state INITIAL_GAME_STATE \<and> isMoveValid INITIAL_GAME_STATE 0 4 = Inr True \<and>
   (\<exists>s'. makeMove INITIAL_GAME_STATE 0 4 = Inr s' \<and> activeBoard s' = Some 4 \<and>
      boards s' ! 4 = boards INITIAL_GAME_STATE ! 4)"
proof -
  have v: "isMoveValid INITIAL_GAME_STATE 0 4 = Inr True"
    by (simp add: isMoveValid_def isNull_def INITIAL_GAME_STATE_def emptyBoard_def)
  from makeMove_activeBoard[OF wf_INITIAL0 v] obtain s' where
    s': "makeMove INITIAL_GAME_STATE 0 4 = Inr s'"
      "activeBoard s' =
         (if bwinner (boards s' ! 4) \<noteq> None \<or> allFilled (cells (boards s' ! 4))
          then None else Some 4)"
      "boards s' ! 4 = boards INITIAL_GAME_STATE ! 4" by auto
  have "bwinner (boards INITIAL_GAME_STATE ! 4) = None"
    "\<not> allFilled (cells (boards INITIAL_GAME_STATE ! 4))"
    by (simp_all add: INITIAL_GAME_STATE_def emptyBoard_def allFilled_def list_all_iff)
  with s' have "activeBoard s' = Some 4" by simp
  with s' v wf_INITIAL0 show ?thesis by blast
qed

section \<open>Replay\<close>

lemma applyMoves_total:
  assumes "wf_state s" "list_all (\<lambda>m. boardIndex m < 9 \<and> cellIndex m < 9) ms"
  shows "\<exists>s'. applyMoves s ms = Inr s' \<and> wf_state s'"
  using assms
proof (induction ms arbitrary: s)
  case Nil
  then show ?case by simp
next
  case (Cons m ms)
  then obtain s1 where s1: "makeMove s (boardIndex m) (cellIndex m) = Inr s1"
    using makeMove_Inr[of s "boardIndex m" "cellIndex m"] by auto
  with Cons.prems have "wf_state s1" using makeMove_wf by blast
  with Cons s1 show ?case by simp
qed

lemma redo_simps:
  "redo (Inl e) m = Inl e"
  "redo (Inr s) m = makeMove s (boardIndex m) (cellIndex m)"
  by (simp_all add: redo_def)

lemma indices_eq: "indices m = indices m' \<longleftrightarrow> boardIndex m = boardIndex m' \<and> cellIndex m = cellIndex m'"
  by (simp add: indices_def)

lemma foldl_redo_Inl: "foldl redo (Inl e) ms = Inl e"
  by (induction ms) (simp_all add: redo_simps)

lemma applyMoves_foldl: "applyMoves s ms = foldl redo (Inr s) ms"
proof (induction ms arbitrary: s)
  case Nil
  then show ?case by simp
next
  case (Cons m ms)
  then show ?case
    by (cases "makeMove s (boardIndex m) (cellIndex m)") (simp_all add: redo_simps foldl_redo_Inl)
qed

lemma applyMoves_indices:
  "map indices ms = map indices ms' \<Longrightarrow> applyMoves s ms = applyMoves s ms'"
proof (induction ms arbitrary: ms' s)
  case Nil
  then show ?case by simp
next
  case (Cons m ms)
  then obtain m' rest where ms': "ms' = m' # rest" by (cases ms') auto
  with Cons.prems have i: "boardIndex m = boardIndex m'" "cellIndex m = cellIndex m'"
    and r: "map indices ms = map indices rest" by (auto simp: indices_eq)
  from Cons.IH[OF r] i ms' show ?case by (simp split: sum.splits)
qed

lemma makeMove_history:
  "makeMove s b c = Inr s' \<Longrightarrow>
     history s' = history s @ [\<lparr>boardIndex = b, cellIndex = c, player = currentPlayer s\<rparr>]"
  by (auto simp: makeMove_def Let_def split: if_splits)

lemma applyMoves_history:
  "applyMoves s ms = Inr t \<Longrightarrow> map indices (history t) = map indices (history s) @ map indices ms"
proof (induction ms arbitrary: s)
  case Nil
  then show ?case by simp
next
  case (Cons m ms)
  then obtain s' where s': "makeMove s (boardIndex m) (cellIndex m) = Inr s'"
    and t: "applyMoves s' ms = Inr t" by (auto split: sum.splits)
  have "indices \<lparr>boardIndex = boardIndex m, cellIndex = cellIndex m, player = currentPlayer s\<rparr> =
        indices m" by (simp add: indices_eq)
  with Cons.IH[OF t] makeMove_history[OF s'] show ?case by simp
qed

text \<open>
  Claim C9. Replay is the fold of \<open>makeMove\<close> over the log, from the initial state with the
  difficulty given: the replay of the empty log is that state, and the replay of a log with
  one more entry is \<open>makeMove\<close> of that entry on the replay of the log (redo). For every
  split of a log, the fold of \<open>makeMove\<close> over the second part, started from the replay of
  the first part, is the replay of the whole log (undo, then redo). Replay is deterministic:
  \<open>makeMove\<close> writes to copies only, so the state depends on nothing but the sequence of
  index pairs of the log and the difficulty; two logs with the same index pairs, and so two
  replays of one log, give the same state. The state records its own log, and the replay of
  that record is the state again. When every index of the log is below 9, no replay throws.
\<close>

theorem replay_laws:
  "reconstructGameState [] d = Inr (INITIAL_GAME_STATE\<lparr>difficulty := d\<rparr>) \<and>
   reconstructGameState (log @ [m]) d =
     (case reconstructGameState log d of
        Inl e \<Rightarrow> Inl e
      | Inr s \<Rightarrow> makeMove s (boardIndex m) (cellIndex m)) \<and>
   reconstructGameState (pre @ suf) d = foldl redo (reconstructGameState pre d) suf \<and>
   (map indices log = map indices log' \<longrightarrow>
      reconstructGameState log d = reconstructGameState log' d) \<and>
   (reconstructGameState log d = Inr t \<longrightarrow>
      map indices (history t) = map indices log \<and> reconstructGameState (history t) d = Inr t) \<and>
   (list_all (\<lambda>m. boardIndex m < 9 \<and> cellIndex m < 9) (pre @ suf) \<longrightarrow>
      (\<exists>s t. reconstructGameState pre d = Inr s \<and> foldl redo (Inr s) suf = Inr t \<and>
             reconstructGameState (pre @ suf) d = Inr t))"
proof -
  let ?init = "INITIAL_GAME_STATE\<lparr>difficulty := d\<rparr>"
  have 1: "reconstructGameState [] d = Inr ?init" by (simp add: reconstructGameState_def)
  have 3: "reconstructGameState (pre @ suf) d = foldl redo (reconstructGameState pre d) suf"
    for pre suf
    by (simp add: reconstructGameState_def applyMoves_foldl)
  have 2: "reconstructGameState (log @ [m]) d =
     (case reconstructGameState log d of
        Inl e \<Rightarrow> Inl e
      | Inr s \<Rightarrow> makeMove s (boardIndex m) (cellIndex m))"
    using 3[of log "[m]"] by (cases "reconstructGameState log d") (simp_all add: redo_simps)
  have 4: "reconstructGameState log d = reconstructGameState log' d"
    if "map indices log = map indices log'"
    using applyMoves_indices[OF that] by (simp add: reconstructGameState_def)
  have 5: "map indices (history t) = map indices log \<and> reconstructGameState (history t) d = Inr t"
    if h: "reconstructGameState log d = Inr t"
  proof -
    from h have a: "applyMoves ?init log = Inr t" by (simp add: reconstructGameState_def)
    from applyMoves_history[OF a] have i: "map indices (history t) = map indices log"
      by (simp add: INITIAL_GAME_STATE_def)
    from applyMoves_indices[OF i, of ?init] a show ?thesis
      using i by (simp add: reconstructGameState_def)
  qed
  have 6: "\<exists>s t. reconstructGameState pre d = Inr s \<and> foldl redo (Inr s) suf = Inr t \<and>
             reconstructGameState (pre @ suf) d = Inr t"
    if h: "list_all (\<lambda>m. boardIndex m < 9 \<and> cellIndex m < 9) (pre @ suf)"
  proof -
    from h have hp: "list_all (\<lambda>m. boardIndex m < 9 \<and> cellIndex m < 9) pre"
      and hs: "list_all (\<lambda>m. boardIndex m < 9 \<and> cellIndex m < 9) suf" by auto
    from applyMoves_total[OF wf_INITIAL hp] obtain s where
      s: "reconstructGameState pre d = Inr s" "wf_state s"
      by (auto simp: reconstructGameState_def)
    from applyMoves_total[OF s(2) hs] obtain t where t: "applyMoves s suf = Inr t" by auto
    with s 3[of pre suf] show ?thesis by (simp add: applyMoves_foldl)
  qed
  from 1 2 3 4 5 6 show ?thesis by blast
qed

lemma two_moves_cells:
  "(case reconstructGameState
           [\<lparr>boardIndex = 0, cellIndex = 4, player = PX\<rparr>,
            \<lparr>boardIndex = 4, cellIndex = 0, player = PO\<rparr>] None of
      Inl e \<Rightarrow> False
    | Inr t \<Rightarrow> cells (boards t ! 0) ! 4 = Some PX \<and> cells (boards t ! 4) ! 0 = Some PO \<and>
              currentPlayer t = PX \<and> activeBoard t = Some 0) = True"
  by code_simp

theorem replay_laws_witness:
  "list_all (\<lambda>m. boardIndex m < 9 \<and> cellIndex m < 9)
     ([\<lparr>boardIndex = 0, cellIndex = 4, player = PX\<rparr>] @
      [\<lparr>boardIndex = 4, cellIndex = 0, player = PO\<rparr>]) \<and>
   map indices [\<lparr>boardIndex = 0, cellIndex = 4, player = PX\<rparr>] =
     map indices [\<lparr>boardIndex = 0, cellIndex = 4, player = PO\<rparr>] \<and>
   reconstructGameState [\<lparr>boardIndex = 0, cellIndex = 4, player = PX\<rparr>] None =
     reconstructGameState [\<lparr>boardIndex = 0, cellIndex = 4, player = PO\<rparr>] None \<and>
   (\<exists>s t. reconstructGameState [\<lparr>boardIndex = 0, cellIndex = 4, player = PX\<rparr>] None = Inr s \<and>
          makeMove s 4 0 = Inr t \<and>
          reconstructGameState
            ([\<lparr>boardIndex = 0, cellIndex = 4, player = PX\<rparr>] @
             [\<lparr>boardIndex = 4, cellIndex = 0, player = PO\<rparr>]) None = Inr t \<and>
          reconstructGameState (history t) None = Inr t \<and>
          cells (boards t ! 0) ! 4 = Some PX \<and> cells (boards t ! 4) ! 0 = Some PO \<and>
          currentPlayer t = PX \<and> activeBoard t = Some 0)"
proof -
  let ?e1 = "\<lparr>boardIndex = 0, cellIndex = 4, player = PX\<rparr>"
  let ?e1' = "\<lparr>boardIndex = 0, cellIndex = 4, player = PO\<rparr>"
  let ?e2 = "\<lparr>boardIndex = 4, cellIndex = 0, player = PO\<rparr>"
  have h: "list_all (\<lambda>m. boardIndex m < 9 \<and> cellIndex m < 9) ([?e1] @ [?e2])" by simp
  have i: "map indices [?e1] = map indices [?e1']" by (simp add: indices_eq)
  note L = replay_laws[where pre = "[?e1]" and suf = "[?e2]" and d = None and log = "[?e1]"
      and log' = "[?e1']" and m = ?e2]
  from L i have same: "reconstructGameState [?e1] None = reconstructGameState [?e1'] None"
    by blast
  from L h obtain s t where st: "reconstructGameState [?e1] None = Inr s"
    "foldl redo (Inr s) [?e2] = Inr t" "reconstructGameState ([?e1] @ [?e2]) None = Inr t"
    by blast
  from st(2) have mk: "makeMove s 4 0 = Inr t" by (simp add: redo_simps)
  from replay_laws[where log = "[?e1] @ [?e2]" and d = None and t = t] st(3)
  have idem: "reconstructGameState (history t) None = Inr t" by blast
  from two_moves_cells st(3) have c: "cells (boards t ! 0) ! 4 = Some PX"
    "cells (boards t ! 4) ! 0 = Some PO" "currentPlayer t = PX" "activeBoard t = Some 0"
    by simp_all
  from h i same st(1) mk st(3) idem c show ?thesis by blast
qed

section \<open>Line detection\<close>

lemma firstLine_Some:
  "firstLine cs ps = Some w \<Longrightarrow> list_ex (\<lambda>pat. heldBy cs pat w) ps"
  by (induction cs ps rule: firstLine.induct) (auto simp: heldBy_def split: if_splits)

lemma firstLine_None:
  "firstLine cs ps = None \<Longrightarrow> \<not> list_ex (\<lambda>pat. heldBy cs pat w) ps"
  by (induction cs ps rule: firstLine.induct) (auto simp: heldBy_def split: if_splits)

lemma firstLine_first:
  assumes "ps = pre @ pat # post" and "list_all (\<lambda>q. \<forall>w. \<not> heldBy cs q w) pre"
    and "heldBy cs pat v"
  shows "firstLine cs ps = Some v"
  using assms
proof (induction pre arbitrary: ps)
  case Nil
  then show ?case by (cases pat) (auto simp: heldBy_def)
next
  case (Cons q pre)
  obtain a b c where q: "q = (a, b, c)" by (cases q) auto
  from Cons.prems(2) have "\<forall>w. \<not> heldBy cs (a, b, c) w" by (simp add: q)
  then have n: "\<not> (at cs a \<noteq> None \<and> at cs a = at cs b \<and> at cs a = at cs c)"
    by (cases "at cs a") (auto simp: heldBy_def)
  from Cons.prems have r: "firstLine cs (pre @ pat # post) = Some v"
    by (intro Cons.IH) auto
  have "firstLine cs ((a, b, c) # pre @ pat # post) = firstLine cs (pre @ pat # post)"
    using n by (simp only: firstLine.simps if_not_P if_False)
  with r Cons.prems(1) q show ?case by simp
qed

lemma checkBoardWinner_line:
  assumes "completedLine cs v"
  shows "\<exists>w. checkBoardWinner cs = Some w \<and> completedLine cs w"
proof (cases "firstLine cs WINNING_PATTERNS")
  case None
  from firstLine_None[OF this, of v] assms show ?thesis by (simp add: completedLine_def)
next
  case (Some w)
  from firstLine_Some[OF this] Some show ?thesis
    by (simp add: checkBoardWinner_def completedLine_def)
qed

lemma checkBoardWinner_noline:
  assumes "allFilled cs" "\<not> completedLine cs (Mark PX)" "\<not> completedLine cs (Mark PO)"
  shows "checkBoardWinner cs = Some Draw"
proof (cases "firstLine cs WINNING_PATTERNS")
  case None
  with assms show ?thesis by (simp add: checkBoardWinner_def)
next
  case (Some w)
  from firstLine_Some[OF this] have "completedLine cs w" by (simp add: completedLine_def)
  with assms have "w = Draw"
  proof (cases w)
    case (Mark q)
    with \<open>completedLine cs w\<close> assms show ?thesis by (cases q) auto
  qed simp
  with Some show ?thesis by (simp add: checkBoardWinner_def)
qed

text \<open>
  Claim C3, amended. \<open>checkBoardWinner\<close> looks at the 8 lines before it looks at whether
  the grid is full, and returns the value of the first completed line in the order of
  \<open>WINNING_PATTERNS\<close> (first conjunct). So for every grid where a mark has a completed line
  and no other value has one, it returns that mark, also when all cells are filled (second
  conjunct); and for every grid with all cells filled and no completed line of a mark, it
  returns \<open>Draw\<close>, not \<open>null\<close> (third conjunct).
\<close>

theorem checkBoardWinner_lines_first:
  "(WINNING_PATTERNS = pre @ pat # post \<and> list_all (\<lambda>q. \<forall>w. \<not> heldBy cs q w) pre \<and>
    heldBy cs pat v
      \<longrightarrow> checkBoardWinner cs = Some v) \<and>
   (completedLine cs (Mark p) \<and> \<not> completedLine cs (Mark (otherPlayer p)) \<and> \<not> completedLine cs Draw
      \<longrightarrow> checkBoardWinner cs = Some (Mark p)) \<and>
   (allFilled cs \<and> \<not> completedLine cs (Mark PX) \<and> \<not> completedLine cs (Mark PO)
      \<longrightarrow> checkBoardWinner cs = Some Draw)"
proof (intro conjI impI)
  assume "WINNING_PATTERNS = pre @ pat # post \<and> list_all (\<lambda>q. \<forall>w. \<not> heldBy cs q w) pre \<and>
    heldBy cs pat v"
  then have "firstLine cs WINNING_PATTERNS = Some v" using firstLine_first by blast
  then show "checkBoardWinner cs = Some v" by (simp add: checkBoardWinner_def)
next
  assume h: "completedLine cs (Mark p) \<and> \<not> completedLine cs (Mark (otherPlayer p)) \<and> \<not> completedLine cs Draw"
  then obtain w where w: "checkBoardWinner cs = Some w" "completedLine cs w"
    using checkBoardWinner_line by blast
  have "w = Mark p"
  proof (cases w)
    case (Mark q)
    with w h show ?thesis by (cases p; cases q; auto simp: otherPlayer_def)
  next
    case Draw
    with w h show ?thesis by simp
  qed
  with w show "checkBoardWinner cs = Some (Mark p)" by simp
next
  assume "allFilled cs \<and> \<not> completedLine cs (Mark PX) \<and> \<not> completedLine cs (Mark PO)"
  then show "checkBoardWinner cs = Some Draw" using checkBoardWinner_noline by blast
qed

theorem checkBoardWinner_lines_first_witness:
  "WINNING_PATTERNS =
     [(0, 1, 2), (3, 4, 5), (6, 7, 8)] @ (0, 3, 6) # [(1, 4, 7), (2, 5, 8), (0, 4, 8), (2, 4, 6)] \<and>
   list_all (\<lambda>q. \<forall>w. \<not> heldBy columnGrid q w)
     [(0, 1, 2), (3, 4, 5), (6, 7, 8)] \<and>
   heldBy columnGrid (0, 3, 6) (Mark PX) \<and>
   checkBoardWinner columnGrid = Some (Mark PX) \<and>
   completedLine fullWonGrid (Mark PX) \<and>
   \<not> completedLine fullWonGrid (Mark (otherPlayer PX)) \<and>
   \<not> completedLine fullWonGrid Draw \<and>
   allFilled fullWonGrid \<and>
   checkBoardWinner fullWonGrid = Some (Mark PX) \<and>
   allFilled fullDrawGrid \<and>
   \<not> completedLine fullDrawGrid (Mark PX) \<and>
   \<not> completedLine fullDrawGrid (Mark PO) \<and>
   checkBoardWinner fullDrawGrid = Some Draw"
proof -
  have k: "WINNING_PATTERNS =
     [(0, 1, 2), (3, 4, 5), (6, 7, 8)] @ (0, 3, 6) # [(1, 4, 7), (2, 5, 8), (0, 4, 8), (2, 4, 6)]"
    "list_all (\<lambda>q. \<forall>w. \<not> heldBy columnGrid q w) [(0, 1, 2), (3, 4, 5), (6, 7, 8)]"
    "heldBy columnGrid (0, 3, 6) (Mark PX)"
    by (simp_all add: columnGrid_def heldBy_def WINNING_PATTERNS_def at_def)
  have g: "completedLine fullWonGrid (Mark PX)" "\<not> completedLine fullWonGrid (Mark (otherPlayer PX))"
    "\<not> completedLine fullWonGrid Draw" "allFilled fullWonGrid"
    by (simp_all add: fullWonGrid_def completedLine_def heldBy_def WINNING_PATTERNS_def at_def
        otherPlayer_def allFilled_def)
  have h: "allFilled fullDrawGrid" "\<not> completedLine fullDrawGrid (Mark PX)" "\<not> completedLine fullDrawGrid (Mark PO)"
    by (simp_all add: fullDrawGrid_def completedLine_def heldBy_def WINNING_PATTERNS_def at_def
        allFilled_def)
  from checkBoardWinner_lines_first[where cs = columnGrid and pre = "[(0, 1, 2), (3, 4, 5), (6, 7, 8)]"
      and pat = "(0, 3, 6)" and post = "[(1, 4, 7), (2, 5, 8), (0, 4, 8), (2, 4, 6)]"
      and v = "Mark PX", THEN conjunct1, rule_format] k
  have 0: "checkBoardWinner columnGrid = Some (Mark PX)" by blast
  from checkBoardWinner_lines_first[where cs = fullWonGrid and p = PX,
      THEN conjunct2, THEN conjunct1, rule_format] g
  have 1: "checkBoardWinner fullWonGrid = Some (Mark PX)" by blast
  from checkBoardWinner_lines_first[where cs = fullDrawGrid,
      THEN conjunct2, THEN conjunct2, rule_format] h
  have 2: "checkBoardWinner fullDrawGrid = Some Draw" by blast
  from k g h 0 1 2 show ?thesis by blast
qed

text \<open>
  Claim C3 as stated fails on a grid where both marks have a completed line: the top row of
  \<open>X\<close> comes first in \<open>WINNING_PATTERNS\<close>, and the completed middle row of \<open>O\<close> is not
  what the function returns.
\<close>

theorem checkBoardWinner_two_lines:
  "completedLine twoLinesGrid (Mark PO) \<and>
   allFilled twoLinesGrid \<and>
   checkBoardWinner twoLinesGrid = Some (Mark PX) \<and>
   checkBoardWinner twoLinesGrid \<noteq> Some (Mark PO)"
  by (simp add: twoLinesGrid_def completedLine_def heldBy_def checkBoardWinner_def
      WINNING_PATTERNS_def at_def allFilled_def)

section \<open>Invariants of play\<close>

lemma inv_INITIAL: "inv_state (INITIAL_GAME_STATE\<lparr>difficulty := d\<rparr>)"
proof -
  have "checkBoardWinner (replicate 9 None) = None"
    by (simp add: checkBoardWinner_def WINNING_PATTERNS_def at_def allFilled_def list_all_iff)
  then show ?thesis
    using wf_INITIAL[of d]
    by (simp add: inv_state_def INITIAL_GAME_STATE_def emptyBoard_def asWinners_def list_all_iff)
qed

lemma inv_step:
  assumes "inv_state s" "isMoveValid s b c = Inr True" "makeMove s b c = Inr s'"
  shows "inv_state s'"
proof -
  from assms(1) have wf: "wf_state s" by (simp add: inv_state_def)
  from legal_in_range[OF wf assms(2)] have b: "b < 9" and c: "c < 9"
    and bw: "bwinner (boards s ! b) = None" by auto
  from wf b have len: "length (boards s) = 9" "length (cells (boards s ! b)) = 9" "length (macroBoard s) = 9"
    using wf_cells[of s b] by (auto simp: wf_state_def)
  have wf': "wf_state s'" using makeMove_wf[OF wf assms(3)] .
  from assms(1) have old: "\<And>i. i < 9 \<Longrightarrow> bwinner (boards s ! i) = checkBoardWinner (asWinners (cells (boards s ! i))) \<and>
                    macroBoard s ! i = bwinner (boards s ! i)"
    by (simp add: inv_state_def list_all_iff)
  define w where "w = checkBoardWinner (asWinners ((cells (boards s ! b))[c := Some (currentPlayer s)]))"
  have new: "\<And>i. i < 9 \<Longrightarrow> bwinner (boards s' ! i) = checkBoardWinner (asWinners (cells (boards s' ! i))) \<and>
                    macroBoard s' ! i = bwinner (boards s' ! i)"
    using assms(3) b c len bw old
    by (auto simp: makeMove_def Let_def nth_list_update split: if_splits)
  have win: "winner s' = checkBoardWinner (macroBoard s')"
    using assms(3) b c len by (auto simp: makeMove_def Let_def split: if_splits)
  have act: "(case activeBoard s' of
         None \<Rightarrow> True
       | Some a \<Rightarrow> bwinner (boards s' ! a) = None \<and> \<not> allFilled (cells (boards s' ! a)))"
    using assms(3) b c len by (auto simp: makeMove_def Let_def split: if_splits)
  from wf' new win act show ?thesis by (simp add: inv_state_def list_all_iff)
qed

lemma reachable_inv: "reachable s \<Longrightarrow> inv_state s"
  by (induction rule: reachable.induct) (auto intro: inv_INITIAL inv_step)

lemma movesOfBoards_Inr:
  "list_all (\<lambda>b. b < length (boards s)) bs \<Longrightarrow>
   movesOfBoards s bs =
     Inr (concat (map (\<lambda>b. if bwinner (boards s ! b) \<noteq> None then []
                           else map (\<lambda>c. (b, c)) (emptyCellsOf (boards s ! b))) bs))"
  by (induction bs) (auto simp: Let_def)

lemma getAvailableMoves_mem:
  assumes "wf_state s"
  shows "\<exists>ms. getAvailableMoves s = Inr ms \<and>
     (\<forall>b c. (b, c) \<in> set ms \<longleftrightarrow>
        (activeBoard s = None \<or> activeBoard s = Some b) \<and> b < 9 \<and> c < 9 \<and>
        bwinner (boards s ! b) = None \<and> cells (boards s ! b) ! c = None)"
proof (cases "activeBoard s")
  case None
  have "list_all (\<lambda>b. b < length (boards s)) [0..<9]"
    using assms by (simp add: wf_state_def list_all_iff)
  from movesOfBoards_Inr[OF this] None assms show ?thesis
    using wf_cells[OF assms]
    by (auto simp: getAvailableMoves_def emptyCellsOf_def isNull_def)
next
  case (Some a)
  with assms have a: "a < 9" by (simp add: wf_state_def)
  then have "list_all (\<lambda>b. b < length (boards s)) [a]"
    using assms by (simp add: wf_state_def)
  from movesOfBoards_Inr[OF this] Some assms a show ?thesis
    using wf_cells[OF assms]
    by (auto simp: getAvailableMoves_def emptyCellsOf_def isNull_def)
qed

lemma not_allFilled_ex:
  "\<not> allFilled xs \<Longrightarrow> \<exists>i < length xs. xs ! i = None"
  by (auto simp: allFilled_def list_all_length)

lemma checkBoardWinner_None_open: "checkBoardWinner cs = None \<Longrightarrow> \<not> allFilled cs"
  by (auto simp: checkBoardWinner_def split: option.splits if_splits)

lemma allFilled_asWinners: "allFilled (asWinners cs) = allFilled cs"
  by (simp add: allFilled_def asWinners_def list_all_iff)

text \<open>
  Claim C4. In every state of play (reached from the initial state by moves that
  \<open>isMoveValid\<close> accepts) whose winner is \<open>null\<close>, \<open>getAvailableMoves\<close> returns a list
  that is not empty.
\<close>

theorem legalMoves_nonempty:
  assumes "reachable s" and "winner s = None"
  shows "\<exists>ms. getAvailableMoves s = Inr ms \<and> ms \<noteq> []"
proof -
  from reachable_inv[OF assms(1)] have inv: "inv_state s" .
  then have wf: "wf_state s" by (simp add: inv_state_def)
  from inv have brd: "\<And>i. i < 9 \<Longrightarrow>
      bwinner (boards s ! i) = checkBoardWinner (asWinners (cells (boards s ! i))) \<and>
      macroBoard s ! i = bwinner (boards s ! i)"
    by (simp add: inv_state_def list_all_iff)
  from getAvailableMoves_mem[OF wf] obtain ms where ms: "getAvailableMoves s = Inr ms"
    and mem: "\<And>b c. (b, c) \<in> set ms \<longleftrightarrow>
        (activeBoard s = None \<or> activeBoard s = Some b) \<and> b < 9 \<and> c < 9 \<and>
        bwinner (boards s ! b) = None \<and> cells (boards s ! b) ! c = None" by blast
  have "\<exists>b c. (b, c) \<in> set ms"
  proof (cases "activeBoard s")
    case None
    from inv assms(2) have "checkBoardWinner (macroBoard s) = None" by (simp add: inv_state_def)
    from not_allFilled_ex[OF checkBoardWinner_None_open[OF this]] wf
    obtain b where b: "b < 9" "macroBoard s ! b = None" by (auto simp: wf_state_def)
    with brd[of b] have bw: "bwinner (boards s ! b) = None"
      and "checkBoardWinner (asWinners (cells (boards s ! b))) = None" by auto
    from not_allFilled_ex[OF checkBoardWinner_None_open[OF this(2), unfolded allFilled_asWinners]]
    obtain c where "c < 9" "cells (boards s ! b) ! c = None"
      using wf_cells[OF wf b(1)] by auto
    with b bw None mem show ?thesis by blast
  next
    case (Some a)
    with inv have a: "a < 9" "bwinner (boards s ! a) = None" "\<not> allFilled (cells (boards s ! a))"
      by (auto simp: inv_state_def wf_state_def)
    from not_allFilled_ex[OF a(3)] obtain c where "c < 9" "cells (boards s ! a) ! c = None"
      using wf_cells[OF wf a(1)] by auto
    with a Some mem show ?thesis by blast
  qed
  then have "ms \<noteq> []" by auto
  with ms show ?thesis by blast
qed

theorem legalMoves_nonempty_witness:
  "reachable INITIAL_GAME_STATE \<and> winner INITIAL_GAME_STATE = None \<and>
   (\<exists>ms. getAvailableMoves INITIAL_GAME_STATE = Inr ms \<and> ms \<noteq> [])"
proof -
  have r: "reachable INITIAL_GAME_STATE"
    using reachable.init[of None] by (simp add: INITIAL_GAME_STATE_def)
  have w: "winner INITIAL_GAME_STATE = None" by (simp add: INITIAL_GAME_STATE_def)
  from legalMoves_nonempty[OF r w] r w show ?thesis by blast
qed

section \<open>The search engine returns available moves\<close>

lemma winLocal_mem: "winLocal s p ms = Inr (Some m) \<Longrightarrow> m \<in> set ms"
  by (induction ms) (auto split: sum.splits if_splits)

lemma blockLocal_mem: "blockLocal s p ms = Inr (Some m) \<Longrightarrow> m \<in> set ms"
  by (induction ms) (auto split: if_splits)

lemma orderScores_fst: "orderScores s p ms = Inr items \<Longrightarrow> map fst items = ms"
  by (induction ms arbitrary: items) (auto split: sum.splits)

lemma orderMoves_set: "orderMoves s ms p = Inr om \<Longrightarrow> set om = set ms"
proof -
  assume h: "orderMoves s ms p = Inr om"
  then obtain items where i: "orderScores s p ms = Inr items"
    and om: "om = map fst (sort_key (\<lambda>item. - snd item) items)"
    by (auto simp: orderMoves_def split: sum.splits)
  have "set om = fst ` set items" using om by simp
  also have "\<dots> = set (map fst items)" by simp
  finally show ?thesis using orderScores_fst[OF i] by simp
qed

lemma hardLoop_mem: "hardLoop s p ms bs bm = Inr (m, sc) \<Longrightarrow> m = bm \<or> m \<in> set ms"
  by (induction ms arbitrary: bs bm) (auto split: sum.splits if_splits)

lemma rootLoop_mem:
  "rootLoop search s ms a b cm cs clk = Inr (m, sc, clk') \<Longrightarrow> m = cm \<or> m \<in> set ms"
proof (induction ms arbitrary: a cm cs clk)
  case Nil
  then show ?case by simp
next
  case (Cons x xs)
  from Cons.prems show ?case
    by (auto simp: Let_def split: sum.splits if_splits prod.splits dest: Cons.IH)
qed

lemma depthLoop_mem:
  "depthLoop s ai ds srt bm bs clk = Inr (m, sc) \<Longrightarrow> set srt \<subseteq> M \<Longrightarrow> bm \<in> M \<Longrightarrow> m \<in> M"
proof (induction ds arbitrary: srt bm bs clk)
  case Nil
  then show ?case by simp
next
  case (Cons d ds)
  show ?case
  proof (cases clk)
    case 0
    with Cons.prems show ?thesis by simp
  next
    case (Suc clk1)
    show ?thesis
    proof (cases srt)
      case Nil
      with Suc Cons.prems show ?thesis by simp
    next
      case (Cons first rest)
      show ?thesis
      proof (cases "rootLoop (\<lambda>s a b k. minimax (d - 1) s a b False ai k)
                       s srt NegInf PosInf first NegInf clk1")
        case (Inl e)
        with Suc Cons Cons.prems show ?thesis by (simp split: if_splits)
      next
        case (Inr r)
        obtain cm cs clk2 where r: "r = (cm, cs, clk2)" by (cases r) auto
        from rootLoop_mem[OF Inr[unfolded r]] Cons have cm: "cm \<in> set srt" by auto
        have eq: "depthLoop s ai ds
                      (cm # filter (\<lambda>m. fst m \<noteq> fst cm \<or> snd m \<noteq> snd cm) srt) cm cs clk2 =
                    Inr (m, sc)"
          using Cons.prems(1) Suc Cons Inr r by simp
        from cm Cons.prems(2) have "set (cm # filter (\<lambda>m. fst m \<noteq> fst cm \<or> snd m \<noteq> snd cm) srt) \<subseteq> M"
          "cm \<in> M" by auto
        from Cons.IH[OF eq this] show ?thesis .
      qed
    qed
  qed
qed

lemma getBestMove_mem:
  assumes "getBestMove s d rnd clk = Inr (Some (m, sc))"
  shows "\<exists>ms. getAvailableMoves s = Inr ms \<and> m \<in> set ms"
proof -
  from assms obtain ms where ms: "getAvailableMoves s = Inr ms"
    by (auto simp: getBestMove_def split: sum.splits)
  with assms obtain m0 rest where c: "ms = m0 # rest"
    by (cases ms) (auto simp: getBestMove_def)
  have "rnd mod length ms < length ms" using c by simp
  then have idx: "ms ! (rnd mod length ms) \<in> set ms" by (rule nth_mem)
  have "m \<in> set ms"
  proof (cases d)
    case Easy
    with assms ms c idx show ?thesis by (auto simp: getBestMove_def)
  next
    case Medium
    with assms ms c idx show ?thesis
      using winLocal_mem[of s "currentPlayer s" ms m] blockLocal_mem[of s "otherPlayer (currentPlayer s)" ms m]
      by (auto simp: getBestMove_def Let_def split: sum.splits option.splits)
  next
    case Hard
    with assms ms c obtain om where om: "orderMoves s ms (currentPlayer s) = Inr om"
      and hl: "hardLoop s (currentPlayer s) om NegInf m0 = Inr (m, the sc)"
      by (auto simp: getBestMove_def Let_def split: sum.splits option.splits)
    from hardLoop_mem[OF hl] orderMoves_set[OF om] c show ?thesis by auto
  next
    case Impossible
    with assms ms c obtain om where om: "orderMoves s ms (currentPlayer s) = Inr om"
      and dl: "depthLoop s (currentPlayer s) [1..<Suc MAX_DEPTH_IMPOSSIBLE] om m0 NegInf clk =
                 Inr (m, the sc)"
      by (auto simp: getBestMove_def getImpossibleMove_def Let_def split: sum.splits option.splits prod.splits)
    from depthLoop_mem[OF dl, of "set ms"] orderMoves_set[OF om] c show ?thesis by auto
  next
    case Other
    with assms ms c show ?thesis by (auto simp: getBestMove_def)
  qed
  with ms show ?thesis by blast
qed

lemma moves_in_range:
  assumes "wf_state s" "getAvailableMoves s = Inr ms"
  shows "list_all (\<lambda>m. fst m < 9 \<and> snd m < 9) ms"
  using getAvailableMoves_mem[OF assms(1)] assms(2) by (auto simp: list_all_iff)

lemma boardsLoop_total:
  "list_all (\<lambda>i. i < length (boards s)) is \<Longrightarrow> \<exists>v. boardsLoop s p opp is sc = Inr v"
  by (induction "is" arbitrary: sc) (auto simp: Let_def)

lemma evaluate_total:
  assumes "wf_state s"
  shows "\<exists>v. evaluateStateAdvanced s p = Inr v"
proof (cases "macroLoop (macroBoard s) p (otherPlayer p) WINNING_PATTERNS 0")
  case (Returned v)
  then show ?thesis by (simp add: evaluateStateAdvanced_def)
next
  case (Summed sc)
  have "list_all (\<lambda>i. i < length (boards s)) [0..<9]"
    using assms by (simp add: wf_state_def list_all_iff)
  from boardsLoop_total[OF this] obtain v where
    v: "boardsLoop s p (otherPlayer p) [0..<9] sc = Inr v" by blast
  have "\<exists>r. tactical s (otherPlayer p) v = Inr r"
    using assms by (auto simp: tactical_def wf_state_def split: option.splits)
  with Summed v show ?thesis by (auto simp: evaluateStateAdvanced_def)
qed

lemma orderScore_total:
  assumes "wf_state s" "fst m < 9" "snd m < 9"
  shows "\<exists>v. orderScore s p m = Inr v"
  using assms by (cases m) (simp add: orderScore_def wf_state_def Let_def)

lemma orderScores_total:
  assumes "wf_state s" "list_all (\<lambda>m. fst m < 9 \<and> snd m < 9) ms"
  shows "\<exists>items. orderScores s p ms = Inr items"
  using assms(2)
proof (induction ms)
  case Nil
  then show ?case by simp
next
  case (Cons m ms)
  then obtain items where "orderScores s p ms = Inr items" by auto
  moreover from Cons.prems orderScore_total[OF assms(1), of m p]
  obtain v where "orderScore s p m = Inr v" by auto
  ultimately show ?case by simp
qed

lemma orderMoves_total:
  assumes "wf_state s" "list_all (\<lambda>m. fst m < 9 \<and> snd m < 9) ms"
  shows "\<exists>om. orderMoves s ms p = Inr om"
  using orderScores_total[OF assms, of p] by (auto simp: orderMoves_def)

lemma winLocal_total:
  assumes "wf_state s" "list_all (\<lambda>m. fst m < 9 \<and> snd m < 9) ms"
  shows "\<exists>r. winLocal s p ms = Inr r"
  using assms(2)
proof (induction ms)
  case Nil
  then show ?case by simp
next
  case (Cons m ms)
  with makeMove_Inr[OF assms(1), of "fst m" "snd m"] show ?case by auto
qed

lemma blockLocal_total:
  assumes "wf_state s" "list_all (\<lambda>m. fst m < 9 \<and> snd m < 9) ms"
  shows "\<exists>r. blockLocal s p ms = Inr r"
  using assms by (induction ms) (auto simp: wf_state_def)

lemma hardLoop_total:
  assumes "wf_state s" "list_all (\<lambda>m. fst m < 9 \<and> snd m < 9) ms"
  shows "\<exists>r. hardLoop s p ms bs bm = Inr r"
  using assms(2)
proof (induction ms arbitrary: bs bm)
  case Nil
  then show ?case by simp
next
  case (Cons m ms)
  from Cons.prems makeMove_Inr[OF assms(1), of "fst m" "snd m"]
  obtain s' where s': "makeMove s (fst m) (snd m) = Inr s'" by auto
  from evaluate_total[OF makeMove_wf[OF assms(1) s'], of p]
  obtain v where v: "evaluateStateAdvanced s' p = Inr v" by blast
  from Cons.prems have "list_all (\<lambda>m. fst m < 9 \<and> snd m < 9) ms" by simp
  from Cons.IH[OF this] s' v show ?case by simp
qed

lemma makeMove_no_growth: "wf_state s \<Longrightarrow> makeMove s b c \<noteq> Inl ArrayGrowth"
  by (auto simp: makeMove_def wf_state_def Let_def list_all_length split: if_splits)

lemma boardsLoop_no_growth: "boardsLoop s p opp is sc \<noteq> Inl ArrayGrowth"
  by (induction "is" arbitrary: sc) (auto simp: Let_def)

lemma evaluate_no_growth: "evaluateStateAdvanced s p \<noteq> Inl ArrayGrowth"
  using boardsLoop_no_growth[of s p "otherPlayer p" "[0..<9]"]
  by (auto simp: evaluateStateAdvanced_def tactical_def Let_def
      split: MacroScan.splits sum.splits option.splits if_splits)

lemma movesOfBoards_no_growth: "movesOfBoards s bs \<noteq> Inl ArrayGrowth"
  by (induction bs) (auto simp: Let_def split: sum.splits)

lemma getAvailableMoves_no_growth: "getAvailableMoves s \<noteq> Inl ArrayGrowth"
  by (simp add: getAvailableMoves_def movesOfBoards_no_growth)

lemma maxLoop_no_growth:
  assumes "wf_state s" and "\<And>s' a b k. wf_state s' \<Longrightarrow> search s' a b k \<noteq> Inl ArrayGrowth"
  shows "maxLoop search s ms a b me k \<noteq> Inl ArrayGrowth"
proof (induction ms arbitrary: a me k)
  case Nil
  then show ?case by simp
next
  case (Cons m ms)
  show ?case
  proof (cases "makeMove s (fst m) (snd m)")
    case (Inl e)
    with makeMove_no_growth[OF assms(1), of "fst m" "snd m"] show ?thesis by auto
  next
    case (Inr s')
    from makeMove_wf[OF assms(1) Inr] have wf': "wf_state s'" .
    show ?thesis
    proof (cases "search s' a b k")
      case (Inl e)
      with assms(2)[OF wf', of a b k] Inr show ?thesis by auto
    next
      case r: (Inr r)
      obtain v k' where "r = (v, k')" by (cases r) auto
      with Inr r Cons.IH show ?thesis by (simp add: Let_def)
    qed
  qed
qed

lemma minLoop_no_growth:
  assumes "wf_state s" and "\<And>s' a b k. wf_state s' \<Longrightarrow> search s' a b k \<noteq> Inl ArrayGrowth"
  shows "minLoop search s ms a b me k \<noteq> Inl ArrayGrowth"
proof (induction ms arbitrary: b me k)
  case Nil
  then show ?case by simp
next
  case (Cons m ms)
  show ?case
  proof (cases "makeMove s (fst m) (snd m)")
    case (Inl e)
    with makeMove_no_growth[OF assms(1), of "fst m" "snd m"] show ?thesis by auto
  next
    case (Inr s')
    from makeMove_wf[OF assms(1) Inr] have wf': "wf_state s'" .
    show ?thesis
    proof (cases "search s' a b k")
      case (Inl e)
      with assms(2)[OF wf', of a b k] Inr show ?thesis by auto
    next
      case r: (Inr r)
      obtain v k' where "r = (v, k')" by (cases r) auto
      with Inr r Cons.IH show ?thesis by (simp add: Let_def)
    qed
  qed
qed

lemma rootLoop_no_growth:
  assumes "wf_state s" and "\<And>s' a b k. wf_state s' \<Longrightarrow> search s' a b k \<noteq> Inl ArrayGrowth"
  shows "rootLoop search s ms a b cm cs k \<noteq> Inl ArrayGrowth"
proof (induction ms arbitrary: a cm cs k)
  case Nil
  then show ?case by simp
next
  case (Cons m ms)
  show ?case
  proof (cases "makeMove s (fst m) (snd m)")
    case (Inl e)
    with makeMove_no_growth[OF assms(1), of "fst m" "snd m"] show ?thesis by auto
  next
    case (Inr s')
    from makeMove_wf[OF assms(1) Inr] have wf': "wf_state s'" .
    show ?thesis
    proof (cases "search s' a b k")
      case (Inl e)
      with assms(2)[OF wf', of a b k] Inr show ?thesis by auto
    next
      case r: (Inr r)
      obtain v k' where "r = (v, k')" by (cases r) auto
      with Inr r Cons.IH show ?thesis by (simp add: Let_def)
    qed
  qed
qed

lemma minimax_no_growth: "wf_state s \<Longrightarrow> minimax d s a b mx p k \<noteq> Inl ArrayGrowth"
proof (induction d arbitrary: s a b mx k)
  case 0
  then show ?case
    using evaluate_no_growth[of s p]
    by (auto split: nat.splits option.splits sum.splits)
next
  case (Suc d)
  have mx': "maxLoop (\<lambda>s a b k. minimax d s a b False p k) s ms a b NegInf k' \<noteq> Inl ArrayGrowth"
    for ms k'
    using Suc.prems Suc.IH by (intro maxLoop_no_growth) auto
  have mn': "minLoop (\<lambda>s a b k. minimax d s a b True p k) s ms a b PosInf k' \<noteq> Inl ArrayGrowth"
    for ms k'
    using Suc.prems Suc.IH by (intro minLoop_no_growth) auto
  show ?case
    using getAvailableMoves_no_growth[of s] mx' mn'
    by (auto split: nat.splits option.splits sum.splits)
qed

lemma depthLoop_total:
  assumes "wf_state s"
  shows "\<exists>r. depthLoop s ai ds srt bm bs clk = Inr r"
proof (induction ds arbitrary: srt bm bs clk)
  case Nil
  then show ?case by simp
next
  case (Cons d ds)
  show ?case
  proof (cases clk)
    case 0
    then show ?thesis by simp
  next
    case (Suc clk1)
    show ?thesis
    proof (cases srt)
      case Nil
      with Suc show ?thesis by simp
    next
      case c: (Cons first rest)
      have ng: "rootLoop (\<lambda>s a b k. minimax (d - 1) s a b False ai k)
                  s srt NegInf PosInf first NegInf clk1 \<noteq> Inl ArrayGrowth"
        using assms minimax_no_growth by (intro rootLoop_no_growth) auto
      show ?thesis
      proof (cases "rootLoop (\<lambda>s a b k. minimax (d - 1) s a b False ai k)
                       s srt NegInf PosInf first NegInf clk1")
        case (Inl e)
        with ng Suc c show ?thesis by (simp del: rootLoop.simps minimax.simps)
      next
        case (Inr r)
        obtain cm cs clk2 where "r = (cm, cs, clk2)" by (cases r) auto
        with Inr Suc c Cons.IH show ?thesis by (simp del: rootLoop.simps minimax.simps)
      qed
    qed
  qed
qed

lemma getBestMove_total_aux:
  assumes "wf_state s" "getAvailableMoves s = Inr ms" "ms \<noteq> []"
  shows "\<exists>r. getBestMove s d rnd clk = Inr (Some r)"
proof -
  from assms(3) obtain m0 rest where c: "ms = m0 # rest" by (cases ms) auto
  note rng = moves_in_range[OF assms(1,2)]
  show ?thesis
  proof (cases d)
    case Easy
    with assms(2) c show ?thesis by (simp add: getBestMove_def)
  next
    case Medium
    from winLocal_total[OF assms(1) rng] obtain r1 where
      r1: "winLocal s (currentPlayer s) ms = Inr r1" by blast
    from blockLocal_total[OF assms(1) rng] obtain r2 where
      r2: "blockLocal s (otherPlayer (currentPlayer s)) ms = Inr r2" by blast
    from Medium assms(2) c r1 r2 show ?thesis
      by (cases r1; cases r2) (simp_all add: getBestMove_def Let_def)
  next
    case Hard
    from orderMoves_total[OF assms(1) rng] obtain om where
      om: "orderMoves s ms (currentPlayer s) = Inr om" by blast
    from orderMoves_set[OF om] rng have "list_all (\<lambda>m. fst m < 9 \<and> snd m < 9) om"
      by (simp add: list_all_iff)
    from hardLoop_total[OF assms(1) this] obtain r where
      "hardLoop s (currentPlayer s) om NegInf m0 = Inr r" by blast
    with Hard assms(2) c om show ?thesis
      by (cases r) (simp add: getBestMove_def Let_def)
  next
    case Impossible
    from orderMoves_total[OF assms(1) rng] obtain om where
      om: "orderMoves s ms (currentPlayer s) = Inr om" by blast
    moreover from depthLoop_total[OF assms(1)] obtain r where
      "depthLoop s (currentPlayer s) [1..<Suc MAX_DEPTH_IMPOSSIBLE] om m0 NegInf clk = Inr r"
      by blast
    ultimately show ?thesis using Impossible assms(2) c
      by (cases r) (simp add: getBestMove_def getImpossibleMove_def Let_def)
  next
    case Other
    with assms(2) c show ?thesis by (simp add: getBestMove_def)
  qed
qed

lemma impossible_first_depth:
  assumes "wf_state s" and "getAvailableMoves s = Inr ms" and "ms \<noteq> []"
    and "orderMoves s ms (currentPlayer s) = Inr om"
    and "clk = 0 \<or>
         isl (rootLoop (\<lambda>s' a b k. minimax 0 s' a b False (currentPlayer s) k)
                s om NegInf PosInf (hd om) NegInf (clk - 1))"
  shows "getBestMove s Impossible rnd clk = Inr (Some (hd ms, Some NegInf))"
proof -
  from assms(3) obtain m0 rest where c: "ms = m0 # rest" by (cases ms) auto
  have ds: "[1..<Suc MAX_DEPTH_IMPOSSIBLE] = 1 # [2..<Suc MAX_DEPTH_IMPOSSIBLE]"
    by (simp add: MAX_DEPTH_IMPOSSIBLE_def upt_rec)
  have "depthLoop s (currentPlayer s) (1 # [2..<Suc MAX_DEPTH_IMPOSSIBLE]) om m0 NegInf clk =
          Inr (m0, NegInf)"
  proof (cases clk)
    case 0
    then show ?thesis by simp
  next
    case (Suc clk1)
    show ?thesis
    proof (cases om)
      case Nil
      with Suc show ?thesis by simp
    next
      case (Cons first more)
      with Suc assms(5) obtain e where e:
        "rootLoop (\<lambda>s' a b k. minimax 0 s' a b False (currentPlayer s) k)
                s om NegInf PosInf first NegInf clk1 = Inl e"
        by (auto simp: isl_def)
      have "rootLoop (\<lambda>s' a b k. minimax 0 s' a b False (currentPlayer s) k)
                s om NegInf PosInf first NegInf clk1 \<noteq> Inl ArrayGrowth"
        by (rule rootLoop_no_growth[OF assms(1)]) (rule minimax_no_growth)
      with e have "e \<noteq> ArrayGrowth" by auto
      with e Suc Cons show ?thesis by (simp del: rootLoop.simps minimax.simps)
    qed
  qed
  with assms(2,4) c ds show ?thesis
    by (simp add: getBestMove_def getImpossibleMove_def Let_def)
qed

text \<open>
  Claim C8. On a well-formed state \<open>getAvailableMoves\<close> does not throw, and \<open>getBestMove\<close>
  returns \<open>null\<close> exactly when the list of available moves is empty, without throwing. When
  the list is not empty every tier returns one of its moves, whatever the random number and
  the clock; and the tier \<open>'impossible'\<close>, when the budget runs out before the search of
  depth 1 is complete (at the first look at the clock, or inside that search, which then
  throws), returns the first available move, with the score it started from.
\<close>

theorem getBestMove_total:
  assumes "wf_state s"
  shows "\<exists>ms. getAvailableMoves s = Inr ms \<and>
           (getBestMove s d rnd clk = Inr None \<longleftrightarrow> ms = []) \<and>
           (ms \<noteq> [] \<longrightarrow> (\<exists>m sc. getBestMove s d rnd clk = Inr (Some (m, sc)) \<and> m \<in> set ms)) \<and>
           (ms \<noteq> [] \<longrightarrow>
              (\<forall>om. orderMoves s ms (currentPlayer s) = Inr om \<and>
                 (clk = 0 \<or>
                  isl (rootLoop (\<lambda>s' a b k. minimax 0 s' a b False (currentPlayer s) k)
                         s om NegInf PosInf (hd om) NegInf (clk - 1)))
                 \<longrightarrow> getBestMove s Impossible rnd clk = Inr (Some (hd ms, Some NegInf))))"
proof -
  from getAvailableMoves_mem[OF assms] obtain ms where ms: "getAvailableMoves s = Inr ms" by blast
  have 1: "getBestMove s d rnd clk = Inr None" if "ms = []"
    using that ms by (simp add: getBestMove_def)
  have 2: "\<exists>m sc. getBestMove s d rnd clk = Inr (Some (m, sc)) \<and> m \<in> set ms" if "ms \<noteq> []"
  proof -
    from getBestMove_total_aux[OF assms ms that] obtain r where
      r: "getBestMove s d rnd clk = Inr (Some r)" by blast
    obtain m sc where "r = (m, sc)" by (cases r) auto
    with r getBestMove_mem[of s d rnd clk m sc] ms show ?thesis by auto
  qed
  have 3: "getBestMove s Impossible rnd clk = Inr (Some (hd ms, Some NegInf))"
    if "ms \<noteq> []" and "orderMoves s ms (currentPlayer s) = Inr om \<and>
                 (clk = 0 \<or>
                  isl (rootLoop (\<lambda>s' a b k. minimax 0 s' a b False (currentPlayer s) k)
                         s om NegInf PosInf (hd om) NegInf (clk - 1)))" for om
    using impossible_first_depth[OF assms ms that(1)] that(2) by blast
  have "getBestMove s d rnd clk = Inr None \<longleftrightarrow> ms = []"
  proof
    assume n: "getBestMove s d rnd clk = Inr None"
    show "ms = []"
    proof (rule ccontr)
      assume "ms \<noteq> []"
      from 2[OF this] n show False by auto
    qed
  qed (rule 1)
  with ms 2 3 show ?thesis by blast
qed

text \<open>
  Claim C10, amended. Whatever the state, the tier, the random number and the clock, a move
  that \<open>getBestMove\<close> returns is an element of \<open>getAvailableMoves\<close> of that state. When the
  state is well-formed and the game is not decided, \<open>isMoveValid\<close> accepts that move.
  Nothing more is said of a decided game: \<open>getAvailableMoves\<close> does not look at the
  winner, and the callers ask for a move only while there is none.
\<close>

theorem getBestMove_legal:
  assumes "getBestMove s d rnd clk = Inr (Some (m, sc))"
  shows "\<exists>ms. getAvailableMoves s = Inr ms \<and> m \<in> set ms \<and>
           (wf_state s \<and> winner s = None \<longrightarrow> isMoveValid s (fst m) (snd m) = Inr True)"
proof -
  from getBestMove_mem[OF assms] obtain ms where
    ms: "getAvailableMoves s = Inr ms" "m \<in> set ms" by blast
  have "isMoveValid s (fst m) (snd m) = Inr True" if wf: "wf_state s" and w: "winner s = None"
  proof -
    from getAvailableMoves_mem[OF wf] ms have
      "(activeBoard s = None \<or> activeBoard s = Some (fst m)) \<and> fst m < 9 \<and> snd m < 9 \<and>
        bwinner (boards s ! fst m) = None \<and> cells (boards s ! fst m) ! snd m = None"
      by (cases m) auto
    with wf w wf_cells[OF wf, of "fst m"] show ?thesis
      by (auto simp: isMoveValid_def isNull_def wf_state_def)
  qed
  with ms show ?thesis by auto
qed

lemma hard_INITIAL:
  "getBestMove INITIAL_GAME_STATE Hard 0 0 = Inr (Some ((4, 4), Some (Fin 45)))"
  by code_simp

theorem getBestMove_total_witness:
  "wf_state INITIAL_GAME_STATE \<and>
   (\<exists>ms om. getAvailableMoves INITIAL_GAME_STATE = Inr ms \<and> ms \<noteq> [] \<and>
      getBestMove INITIAL_GAME_STATE Hard 0 0 \<noteq> Inr None \<and>
      (\<exists>m sc. getBestMove INITIAL_GAME_STATE Hard 0 0 = Inr (Some (m, sc)) \<and> m \<in> set ms) \<and>
      orderMoves INITIAL_GAME_STATE ms (currentPlayer INITIAL_GAME_STATE) = Inr om \<and>
      getBestMove INITIAL_GAME_STATE Impossible 0 0 = Inr (Some (hd ms, Some NegInf)))"
proof -
  from getBestMove_total[OF wf_INITIAL0, of Hard 0 0] obtain ms where
    ms: "getAvailableMoves INITIAL_GAME_STATE = Inr ms"
    and a: "getBestMove INITIAL_GAME_STATE Hard 0 0 = Inr None \<longleftrightarrow> ms = []"
    and b: "ms \<noteq> [] \<longrightarrow>
      (\<exists>m sc. getBestMove INITIAL_GAME_STATE Hard 0 0 = Inr (Some (m, sc)) \<and> m \<in> set ms)"
    by blast
  have "getAvailableMoves INITIAL_GAME_STATE \<noteq> Inr []" by code_simp
  with ms have ne: "ms \<noteq> []" by auto
  from orderMoves_total[OF wf_INITIAL0 moves_in_range[OF wf_INITIAL0 ms]] obtain om where
    om: "orderMoves INITIAL_GAME_STATE ms (currentPlayer INITIAL_GAME_STATE) = Inr om" by blast
  from getBestMove_total[OF wf_INITIAL0, of Impossible 0 0] ms have
    "ms \<noteq> [] \<longrightarrow>
       (\<forall>om. orderMoves INITIAL_GAME_STATE ms (currentPlayer INITIAL_GAME_STATE) = Inr om \<and>
          ((0::nat) = 0 \<or>
           isl (rootLoop
                  (\<lambda>s' a b k. minimax 0 s' a b False (currentPlayer INITIAL_GAME_STATE) k)
                  INITIAL_GAME_STATE om NegInf PosInf (hd om) NegInf (0 - 1)))
          \<longrightarrow> getBestMove INITIAL_GAME_STATE Impossible 0 0 = Inr (Some (hd ms, Some NegInf)))"
    by auto
  with ne om have c: "getBestMove INITIAL_GAME_STATE Impossible 0 0 = Inr (Some (hd ms, Some NegInf))"
    by blast
  from ms a b c ne om wf_INITIAL0 show ?thesis by blast
qed

theorem getBestMove_legal_witness:
  "getBestMove INITIAL_GAME_STATE Hard 0 0 = Inr (Some ((4, 4), Some (Fin 45))) \<and>
   wf_state INITIAL_GAME_STATE \<and> winner INITIAL_GAME_STATE = None \<and>
   (\<exists>ms. getAvailableMoves INITIAL_GAME_STATE = Inr ms \<and> (4, 4) \<in> set ms) \<and>
   isMoveValid INITIAL_GAME_STATE 4 4 = Inr True"
proof -
  note g = hard_INITIAL
  have w: "winner INITIAL_GAME_STATE = None" by (simp add: INITIAL_GAME_STATE_def)
  from getBestMove_legal[OF g] wf_INITIAL0 w g show ?thesis by auto
qed

section \<open>The example games are games\<close>

lemma playLegal_reachable: "reachable s \<Longrightarrow> playLegal s ms = Some s' \<Longrightarrow> reachable s'"
  by (induction ms arbitrary: s) (auto split: if_splits sum.splits intro: reachable.step)

lemma reachable_INITIAL: "reachable INITIAL_GAME_STATE"
  using reachable.init[of None] by (simp add: INITIAL_GAME_STATE_def)

lemma drawn_play: "playLegal INITIAL_GAME_STATE drawnLog = Some drawnState"
  by code_simp

lemma won_play: "playLegal INITIAL_GAME_STATE wonLog = Some wonState"
  by code_simp

lemma tie_play: "playLegal INITIAL_GAME_STATE tieLog = Some tieState"
  by code_simp

lemma brilliant_play: "playLegal INITIAL_GAME_STATE brilliantLog = Some brilliantState"
  by code_simp

lemma tie_hard: "getBestMove tieState Hard 0 0 = Inr (Some ((8, 4), Some (Fin 1035)))"
  by code_simp

lemma bri_an: "analyzeMoveQuality brilliantState (0, 7) = Inr \<lparr>classification = Brilliant, score = 1032, bestMove = Some (0, 7)\<rparr>"
  by code_simp

section \<open>The engine on a decided game\<close>

text \<open>
  Claim C10 as stated fails on a decided game: in the state after the 23 legal moves of
  \<open>wonLog\<close>, which \<open>X\<close> has won, board 7 is active and open, the tier \<open>'hard'\<close> returns the
  move (7, 0), an element of \<open>getAvailableMoves\<close>, and \<open>isMoveValid\<close> rejects it.
\<close>

theorem getBestMove_decided_game:
  "reachable wonState \<and> wf_state wonState \<and> winner wonState = Some (Mark PX) \<and>
   getAvailableMoves wonState = Inr [(7, 0), (7, 1), (7, 2), (7, 3), (7, 6), (7, 7), (7, 8)] \<and>
   getBestMove wonState Hard 0 0 = Inr (Some ((7, 0), Some (Fin (- 10000000)))) \<and>
   isMoveValid wonState 7 0 = Inr False"
proof -
  have r: "reachable wonState"
    using playLegal_reachable[OF reachable_INITIAL won_play] .
  have 1: "wf_state wonState" by code_simp
  have 2: "winner wonState = Some (Mark PX)" by (simp add: wonState_def)
  have 3: "getAvailableMoves wonState =
     Inr [(7, 0), (7, 1), (7, 2), (7, 3), (7, 6), (7, 7), (7, 8)]" by code_simp
  have 4: "getBestMove wonState Hard 0 0 = Inr (Some ((7, 0), Some (Fin (- 10000000))))"
    by code_simp
  have 5: "isMoveValid wonState 7 0 = Inr False" by code_simp
  from r 1 2 3 4 5 show ?thesis by simp
qed

section \<open>The evaluator on decided games\<close>

lemma countIn_3:
  "countIn xs (a, b, c) v = 3 \<longleftrightarrow> at xs a = Some v \<and> at xs b = Some v \<and> at xs c = Some v"
  by (auto simp: countIn_def split: if_splits)

lemma countIn_other:
  "at xs a = Some v \<Longrightarrow> at xs b = Some v \<Longrightarrow> at xs c = Some v \<Longrightarrow> w \<noteq> v \<Longrightarrow>
   countIn xs (a, b, c) w = 0"
  by (simp add: countIn_def)

lemma otherPlayer_cases: "q \<noteq> p \<Longrightarrow> otherPlayer p = q"
  by (cases p; cases q) (auto simp: otherPlayer_def)

lemma macroLoop_win:
  assumes "firstLine mb ps = Some (Mark q)"
  shows "macroLoop mb p (otherPlayer p) ps sc = Returned (if p = q then WIN_SCORE else - WIN_SCORE)"
  using assms
proof (induction ps arbitrary: sc)
  case Nil
  then show ?case by simp
next
  case (Cons pat ps)
  obtain a b c where pat: "pat = (a, b, c)" by (cases pat) auto
  show ?case
  proof (cases "at mb a \<noteq> None \<and> at mb a = at mb b \<and> at mb a = at mb c")
    case True
    with Cons.prems pat have l: "at mb a = Some (Mark q)" "at mb b = Some (Mark q)"
      "at mb c = Some (Mark q)" by auto
    then have three: "countIn mb (a, b, c) (Mark q) = 3" by (simp add: countIn_3)
    from l have d: "countIn mb (a, b, c) Draw = 0" by (intro countIn_other) auto
    show ?thesis
    proof (cases "p = q")
      case True
      with three d pat show ?thesis by (simp add: Let_def)
    next
      case False
      then have o: "otherPlayer p = q" by (rule otherPlayer_cases[OF not_sym])
      from l False have "countIn mb (a, b, c) (Mark p) = 0" by (intro countIn_other) auto
      with three d pat o False show ?thesis by (simp add: Let_def)
    qed
  next
    case False
    have rest: "firstLine mb ps = Some (Mark q)"
      using Cons.prems False unfolding pat by (auto split: if_splits)
    from False have np: "countIn mb (a, b, c) (Mark p) \<noteq> 3"
      and no: "countIn mb (a, b, c) (Mark (otherPlayer p)) \<noteq> 3"
      by (auto simp: countIn_3)
    from np no pat Cons.IH[OF rest] show ?thesis by (simp add: Let_def)
  qed
qed

lemma evaluate_win:
  assumes "winner s = checkBoardWinner (macroBoard s)" and "winner s = Some (Mark q)"
  shows "evaluateStateAdvanced s p = Inr (if p = q then WIN_SCORE else - WIN_SCORE)"
proof -
  from assms have "firstLine (macroBoard s) WINNING_PATTERNS = Some (Mark q)"
    by (auto simp: checkBoardWinner_def split: option.splits if_splits)
  from macroLoop_win[OF this] show ?thesis by (simp add: evaluateStateAdvanced_def)
qed

text \<open>
  The win and loss clauses of the decisive check hold in every state of play: the first loop
  of the evaluator returns the win constant, or its negation, at the first macro line that
  a player holds.
\<close>

lemma evaluate_decisive:
  assumes "reachable s" and "winner s = Some (Mark q)"
  shows "evaluateStateAdvanced s q = Inr WIN_SCORE \<and>
         evaluateStateAdvanced s (otherPlayer q) = Inr (- WIN_SCORE)"
proof -
  from reachable_inv[OF assms(1)] have w: "winner s = checkBoardWinner (macroBoard s)"
    by (simp add: inv_state_def)
  have "otherPlayer q \<noteq> q" by (cases q) (auto simp: otherPlayer_def)
  with evaluate_win[OF w assms(2), of q] evaluate_win[OF w assms(2), of "otherPlayer q"]
  show ?thesis by simp
qed

lemma evaluate_decisive_won:
  "reachable wonState \<and> winner wonState = Some (Mark PX) \<and>
   evaluateStateAdvanced wonState PX = Inr WIN_SCORE \<and>
   evaluateStateAdvanced wonState (otherPlayer PX) = Inr (- WIN_SCORE)"
proof -
  have r: "reachable wonState"
    using playLegal_reachable[OF reachable_INITIAL won_play] .
  have w: "winner wonState = Some (Mark PX)" by (simp add: wonState_def)
  from evaluate_decisive[OF r w] r w show ?thesis by simp
qed

text \<open>
  Claim C5 at the state after the 40 legal moves of \<open>drawnLog\<close>, whose result is \<open>Draw\<close>: the
  evaluator returns 750 for \<open>X\<close> and -5750 for \<open>O\<close>, where the claim has 0. It never reads
  the result of the game and has no branch for a draw. \<open>minimax\<close> returns 0 for this state
  before it calls the evaluator; the tier \<open>'hard'\<close>, \<open>analyzeMoveQuality\<close> and
  \<open>evaluateState\<close> call the evaluator on the states they are given.
\<close>

theorem evaluate_draw_not_zero:
  "reachable drawnState \<and> winner drawnState = Some Draw \<and>
   evaluateStateAdvanced drawnState PX = Inr 750 \<and>
   evaluateStateAdvanced drawnState PO = Inr (- 5750) \<and>
   evaluateStateAdvanced drawnState PX \<noteq> Inr 0 \<and>
   evaluateStateAdvanced drawnState PO \<noteq> Inr 0 \<and>
   minimax 0 drawnState NegInf PosInf False PX 1 = Inr (Fin 0, 0)"
proof -
  have r: "reachable drawnState"
    using playLegal_reachable[OF reachable_INITIAL drawn_play] .
  have w: "winner drawnState = Some Draw" by (simp add: drawnState_def)
  have e: "evaluateStateAdvanced drawnState PX = Inr 750"
    "evaluateStateAdvanced drawnState PO = Inr (- 5750)" by code_simp+
  have m: "minimax 0 drawnState NegInf PosInf False PX 1 = Inr (Fin 0, 0)" by code_simp
  from r w e m show ?thesis by simp
qed


section \<open>The tier hard\<close>

lemma sless_irrefl: "\<not> sless a a"
  by (cases a) auto

lemma sless_trans: "sless a b \<Longrightarrow> sless b c \<Longrightarrow> sless a c"
  by (cases a; cases b; cases c) auto

lemma sless_between: "\<not> sless a (Fin v) \<Longrightarrow> sless a (Fin w) \<Longrightarrow> v < w"
  by (cases a) auto

lemma not_sless_trans: "\<not> sless a (Fin v) \<Longrightarrow> sless a c \<Longrightarrow> \<not> sless c (Fin v)"
  by (cases a; cases c) auto

lemma hardLoop_spec:
  assumes "list_all (\<lambda>x. \<exists>v. moveScore s p x = Inr v) xs"
    and "hardLoop s p xs bs bm = Inr (m, sc)"
  shows "(\<forall>x\<in>set xs. \<forall>v. moveScore s p x = Inr v \<longrightarrow> \<not> sless sc (Fin v)) \<and>
         ((sc = bs \<and> m = bm) \<or>
          (sless bs sc \<and>
           (\<exists>pre post vm. xs = pre @ m # post \<and> moveScore s p m = Inr vm \<and> sc = Fin vm \<and>
              (\<forall>x\<in>set pre. \<forall>v. moveScore s p x = Inr v \<longrightarrow> v < vm))))"
  using assms
proof (induction xs arbitrary: bs bm)
  case Nil
  then show ?case by simp
next
  case (Cons x xs)
  from Cons.prems(1) obtain v where v: "moveScore s p x = Inr v" by auto
  then obtain s' where s': "makeMove s (fst x) (snd x) = Inr s'"
    and e: "evaluateStateAdvanced s' p = Inr v"
    by (auto simp: moveScore_def split: sum.splits)
  from Cons.prems(1) have tot: "list_all (\<lambda>x. \<exists>v. moveScore s p x = Inr v) xs" by simp
  show ?case
  proof (cases "sless bs (Fin v)")
    case True
    with Cons.prems(2) s' e have rec: "hardLoop s p xs (Fin v) x = Inr (m, sc)" by simp
    from Cons.IH[OF tot rec] have
      le: "\<forall>y\<in>set xs. \<forall>w. moveScore s p y = Inr w \<longrightarrow> \<not> sless sc (Fin w)"
      and alt: "(sc = Fin v \<and> m = x) \<or>
          (sless (Fin v) sc \<and>
           (\<exists>pre post vm. xs = pre @ m # post \<and> moveScore s p m = Inr vm \<and> sc = Fin vm \<and>
              (\<forall>y\<in>set pre. \<forall>w. moveScore s p y = Inr w \<longrightarrow> w < vm)))" by auto
    from alt show ?thesis
    proof
      assume a: "sc = Fin v \<and> m = x"
      have top: "\<forall>y\<in>set (x # xs). \<forall>w. moveScore s p y = Inr w \<longrightarrow> \<not> sless sc (Fin w)"
        using le v a by auto
      have "x # xs = [] @ m # xs \<and> moveScore s p m = Inr v \<and> sc = Fin v \<and>
              (\<forall>y\<in>set []. \<forall>w. moveScore s p y = Inr w \<longrightarrow> w < v)"
        using a v by simp
      then have ex: "\<exists>pre post vm. x # xs = pre @ m # post \<and> moveScore s p m = Inr vm \<and>
              sc = Fin vm \<and> (\<forall>y\<in>set pre. \<forall>w. moveScore s p y = Inr w \<longrightarrow> w < vm)"
        by blast
      from True a have "sless bs sc" by simp
      with top ex show ?thesis by blast
    next
      assume a: "sless (Fin v) sc \<and>
           (\<exists>pre post vm. xs = pre @ m # post \<and> moveScore s p m = Inr vm \<and> sc = Fin vm \<and>
              (\<forall>y\<in>set pre. \<forall>w. moveScore s p y = Inr w \<longrightarrow> w < vm))"
      then obtain pre post vm where p: "xs = pre @ m # post" "moveScore s p m = Inr vm"
        "sc = Fin vm" "\<forall>y\<in>set pre. \<forall>w. moveScore s p y = Inr w \<longrightarrow> w < vm" by blast
      from a p have lt: "v < vm" by simp
      have split: "x # xs = (x # pre) @ m # post" using p by simp
      have pre': "\<forall>y\<in>set (x # pre). \<forall>w. moveScore s p y = Inr w \<longrightarrow> w < vm"
        using p(4) v lt by auto
      have top: "\<forall>y\<in>set (x # xs). \<forall>w. moveScore s p y = Inr w \<longrightarrow> \<not> sless sc (Fin w)"
        using le v lt p(3) by auto
      have "sless bs sc" using True a sless_trans by blast
      with split p(2,3) pre' top show ?thesis by blast
    qed
  next
    case False
    with Cons.prems(2) s' e have rec: "hardLoop s p xs bs bm = Inr (m, sc)" by simp
    from Cons.IH[OF tot rec] have
      le: "\<forall>y\<in>set xs. \<forall>w. moveScore s p y = Inr w \<longrightarrow> \<not> sless sc (Fin w)"
      and alt: "(sc = bs \<and> m = bm) \<or>
          (sless bs sc \<and>
           (\<exists>pre post vm. xs = pre @ m # post \<and> moveScore s p m = Inr vm \<and> sc = Fin vm \<and>
              (\<forall>y\<in>set pre. \<forall>w. moveScore s p y = Inr w \<longrightarrow> w < vm)))" by auto
    from alt show ?thesis
    proof
      assume a: "sc = bs \<and> m = bm"
      with False le v show ?thesis by auto
    next
      assume a: "sless bs sc \<and>
           (\<exists>pre post vm. xs = pre @ m # post \<and> moveScore s p m = Inr vm \<and> sc = Fin vm \<and>
              (\<forall>y\<in>set pre. \<forall>w. moveScore s p y = Inr w \<longrightarrow> w < vm))"
      then obtain pre post vm where p: "xs = pre @ m # post" "moveScore s p m = Inr vm"
        "sc = Fin vm" "\<forall>y\<in>set pre. \<forall>w. moveScore s p y = Inr w \<longrightarrow> w < vm" by blast
      from a p(3) False have lt: "v < vm" using sless_between by blast
      have split: "x # xs = (x # pre) @ m # post" using p by simp
      have pre': "\<forall>y\<in>set (x # pre). \<forall>w. moveScore s p y = Inr w \<longrightarrow> w < vm"
        using p(4) v lt by auto
      have top: "\<forall>y\<in>set (x # xs). \<forall>w. moveScore s p y = Inr w \<longrightarrow> \<not> sless sc (Fin w)"
        using le v lt p(3) by auto
      from a split p(2,3) pre' top show ?thesis by blast
    qed
  qed
qed

lemma moveScore_total:
  assumes "wf_state s" "fst m < 9" "snd m < 9"
  shows "\<exists>v. moveScore s p m = Inr v"
proof -
  from makeMove_Inr[OF assms] obtain s' where s': "makeMove s (fst m) (snd m) = Inr s'" by blast
  from evaluate_total[OF makeMove_wf[OF assms(1) s'], of p] s' show ?thesis
    by (simp add: moveScore_def)
qed

lemma hard_tier_aux:
  assumes "wf_state s" and "getAvailableMoves s = Inr ms" and "ms \<noteq> []"
  shows "\<exists>om pre post m sc.
           orderMoves s ms (currentPlayer s) = Inr om \<and>
           getBestMove s Hard rnd clk = Inr (Some (m, Some (Fin sc))) \<and>
           m \<in> set ms \<and> moveScore s (currentPlayer s) m = Inr sc \<and>
           (\<forall>x\<in>set ms. \<exists>v. moveScore s (currentPlayer s) x = Inr v \<and> v \<le> sc) \<and>
           om = pre @ m # post \<and>
           (\<forall>x\<in>set pre. moveScore s (currentPlayer s) x \<noteq> Inr sc)"
proof -
  let ?p = "currentPlayer s"
  from assms(3) obtain m0 rest where c: "ms = m0 # rest" by (cases ms) auto
  note rng = moves_in_range[OF assms(1,2)]
  from orderMoves_total[OF assms(1) rng] obtain om where
    om: "orderMoves s ms ?p = Inr om" by blast
  note sets = orderMoves_set[OF om]
  have tot_ms: "\<And>x. x \<in> set ms \<Longrightarrow> \<exists>v. moveScore s ?p x = Inr v"
    using rng moveScore_total[OF assms(1)] by (auto simp: list_all_iff)
  then have tot: "list_all (\<lambda>x. \<exists>v. moveScore s ?p x = Inr v) om"
    using sets by (simp add: list_all_iff)
  from sets rng have "list_all (\<lambda>m. fst m < 9 \<and> snd m < 9) om" by (simp add: list_all_iff)
  from hardLoop_total[OF assms(1) this] obtain r where
    "hardLoop s ?p om NegInf m0 = Inr r" by blast
  then obtain m sc where hl: "hardLoop s ?p om NegInf m0 = Inr (m, sc)" by (cases r) auto
  from hardLoop_spec[OF tot hl] have
    le: "\<forall>x\<in>set om. \<forall>v. moveScore s ?p x = Inr v \<longrightarrow> \<not> sless sc (Fin v)"
    and alt: "(sc = NegInf \<and> m = m0) \<or>
          (sless NegInf sc \<and>
           (\<exists>pre post vm. om = pre @ m # post \<and> moveScore s ?p m = Inr vm \<and> sc = Fin vm \<and>
              (\<forall>x\<in>set pre. \<forall>v. moveScore s ?p x = Inr v \<longrightarrow> v < vm)))" by auto
  have "sc \<noteq> NegInf"
  proof
    assume n: "sc = NegInf"
    from c sets have "m0 \<in> set om" by simp
    moreover from tot_ms[of m0] c obtain v where "moveScore s ?p m0 = Inr v" by auto
    ultimately show False using le n by auto
  qed
  with alt obtain pre post vm where p: "om = pre @ m # post" "moveScore s ?p m = Inr vm"
    "sc = Fin vm" "\<forall>x\<in>set pre. \<forall>v. moveScore s ?p x = Inr v \<longrightarrow> v < vm" by blast
  have g: "getBestMove s Hard rnd clk = Inr (Some (m, Some (Fin vm)))"
    using assms(2) c om hl p(3) by (simp add: getBestMove_def Let_def)
  have mem: "m \<in> set ms" using p(1) sets by auto
  have mx: "\<forall>x\<in>set ms. \<exists>v. moveScore s ?p x = Inr v \<and> v \<le> vm"
  proof
    fix x assume x: "x \<in> set ms"
    from tot_ms[OF x] obtain v where v: "moveScore s ?p x = Inr v" by blast
    with le x sets p(3) have "\<not> vm < v" by auto
    with v show "\<exists>v. moveScore s ?p x = Inr v \<and> v \<le> vm" by auto
  qed
  have first: "\<forall>x\<in>set pre. moveScore s ?p x \<noteq> Inr vm" using p(4) by auto
  from om g mem p(2) mx p(1) first show ?thesis by blast
qed

lemma orderScores_snd:
  "orderScores s p ms = Inr items \<Longrightarrow> it \<in> set items \<Longrightarrow> orderScore s p (fst it) = Inr (snd it)"
  by (induction ms arbitrary: items) (auto split: sum.splits)

lemma orderMoves_sorted_stable:
  assumes "orderMoves s ms p = Inr om"
  shows "sorted_wrt (\<lambda>x y. \<exists>a b. orderScore s p x = Inr a \<and> orderScore s p y = Inr b \<and> b \<le> a) om \<and>
         (\<forall>k. filter (\<lambda>x. orderScore s p x = Inr k) om = filter (\<lambda>x. orderScore s p x = Inr k) ms)"
proof -
  let ?f = "\<lambda>item :: Move \<times> int. - snd item"
  from assms obtain items where i: "orderScores s p ms = Inr items"
    and om: "om = map fst (sort_key ?f items)"
    by (auto simp: orderMoves_def split: sum.splits)
  note sc = orderScores_snd[OF i]
  have ms: "ms = map fst items" using orderScores_fst[OF i] by simp
  have "sorted (map ?f (sort_key ?f items))" by (rule sorted_sort_key)
  then have "sorted_wrt (\<lambda>x y. ?f x \<le> ?f y) (sort_key ?f items)"
    by (simp add: sorted_map)
  then have "sorted_wrt (\<lambda>x y. \<exists>a b. orderScore s p (fst x) = Inr a \<and> orderScore s p (fst y) = Inr b \<and> b \<le> a)
               (sort_key ?f items)"
  proof (rule sorted_wrt_mono_rel[rotated])
    fix x y assume "x \<in> set (sort_key ?f items)" "y \<in> set (sort_key ?f items)" "?f x \<le> ?f y"
    with sc[of x] sc[of y]
    show "\<exists>a b. orderScore s p (fst x) = Inr a \<and> orderScore s p (fst y) = Inr b \<and> b \<le> a"
      by auto
  qed
  then have 1: "sorted_wrt (\<lambda>x y. \<exists>a b. orderScore s p x = Inr a \<and> orderScore s p y = Inr b \<and> b \<le> a) om"
    by (simp add: om sorted_wrt_map)
  have 2: "filter (\<lambda>x. orderScore s p x = Inr k) om = filter (\<lambda>x. orderScore s p x = Inr k) ms" for k
  proof -
    have "filter (\<lambda>x. orderScore s p x = Inr k) om =
          map fst (filter (\<lambda>it. orderScore s p (fst it) = Inr k) (sort_key ?f items))"
      by (simp add: om filter_map comp_def)
    also have "filter (\<lambda>it. orderScore s p (fst it) = Inr k) (sort_key ?f items) =
               filter (\<lambda>it. ?f it = - k) (sort_key ?f items)"
      by (rule filter_cong) (auto simp: sc)
    also have "\<dots> = filter (\<lambda>it. ?f it = - k) items" by (rule sort_key_stable)
    also have "\<dots> = filter (\<lambda>it. orderScore s p (fst it) = Inr k) items"
      by (rule filter_cong) (auto simp: sc)
    also have "map fst \<dots> = filter (\<lambda>x. orderScore s p x = Inr k) ms"
      by (simp add: ms filter_map comp_def)
    finally show ?thesis .
  qed
  from 1 2 show ?thesis by blast
qed

lemma tie_moves: "getAvailableMoves tieState = Inr [(8, 0), (8, 3), (8, 4), (8, 5), (8, 6), (8, 8)]"
  by code_simp

lemma tie_scores:
  "map (moveScore tieState PX) [(8, 0), (8, 3), (8, 4), (8, 5), (8, 6), (8, 8)] =
     [Inr 1035, Inr 60, Inr 1035, Inr 84, Inr 111, Inr 111]"
  by code_simp

lemma tie_order: "orderMoves tieState [(8, 0), (8, 3), (8, 4), (8, 5), (8, 6), (8, 8)] PX = Inr [(8, 4), (8, 0), (8, 3), (8, 5), (8, 6), (8, 8)]"
  by code_simp

lemma wf_tie: "wf_state tieState"
  by code_simp

lemma bri_valid: "isMoveValid brilliantState 0 7 = Inr True"
  by code_simp

text \<open>
  Claim C6, amended. For every well-formed state with at least one available move, the tier
  \<open>'hard'\<close> returns a move that maximizes the score of the state after the move, for the
  player to move, together with that score. Among the moves with the maximal score it
  returns the one that comes first in the list that \<open>orderMoves\<close> returns: the available
  moves in descending order of their ordering score, and in the order of
  \<open>getAvailableMoves\<close> among moves of equal ordering score.
\<close>

theorem hard_tier_spec:
  assumes "wf_state s" and "getAvailableMoves s = Inr ms" and "ms \<noteq> []"
  shows "\<exists>om pre post m sc.
           orderMoves s ms (currentPlayer s) = Inr om \<and>
           sorted_wrt (\<lambda>x y. \<exists>a b. orderScore s (currentPlayer s) x = Inr a \<and>
                         orderScore s (currentPlayer s) y = Inr b \<and> b \<le> a) om \<and>
           (\<forall>k. filter (\<lambda>x. orderScore s (currentPlayer s) x = Inr k) om =
                filter (\<lambda>x. orderScore s (currentPlayer s) x = Inr k) ms) \<and>
           getBestMove s Hard rnd clk = Inr (Some (m, Some (Fin sc))) \<and>
           m \<in> set ms \<and> moveScore s (currentPlayer s) m = Inr sc \<and>
           (\<forall>x\<in>set ms. \<exists>v. moveScore s (currentPlayer s) x = Inr v \<and> v \<le> sc) \<and>
           om = pre @ m # post \<and>
           (\<forall>x\<in>set pre. moveScore s (currentPlayer s) x \<noteq> Inr sc)"
proof -
  from hard_tier_aux[OF assms, of rnd clk] obtain om pre post m sc where
    h: "orderMoves s ms (currentPlayer s) = Inr om"
      "getBestMove s Hard rnd clk = Inr (Some (m, Some (Fin sc)))"
      "m \<in> set ms" "moveScore s (currentPlayer s) m = Inr sc"
      "\<forall>x\<in>set ms. \<exists>v. moveScore s (currentPlayer s) x = Inr v \<and> v \<le> sc"
      "om = pre @ m # post"
      "\<forall>x\<in>set pre. moveScore s (currentPlayer s) x \<noteq> Inr sc" by blast
  from orderMoves_sorted_stable[OF h(1)] h show ?thesis by blast
qed

theorem hard_tier_spec_witness:
  "wf_state tieState \<and>
   getAvailableMoves tieState = Inr [(8, 0), (8, 3), (8, 4), (8, 5), (8, 6), (8, 8)] \<and>
   [(8, 0), (8, 3), (8, 4), (8, 5), (8, 6), (8, 8)] \<noteq> ([] :: Move list) \<and>
   orderMoves tieState [(8, 0), (8, 3), (8, 4), (8, 5), (8, 6), (8, 8)] (currentPlayer tieState) =
     Inr ([] @ (8, 4) # [(8, 0), (8, 3), (8, 5), (8, 6), (8, 8)]) \<and>
   getBestMove tieState Hard 0 0 = Inr (Some ((8, 4), Some (Fin 1035))) \<and>
   moveScore tieState (currentPlayer tieState) (8, 4) = Inr 1035 \<and>
   list_all (\<lambda>x. \<exists>v. moveScore tieState (currentPlayer tieState) x = Inr v \<and> v \<le> 1035)
     [(8, 0), (8, 3), (8, 4), (8, 5), (8, 6), (8, 8)]"
proof -
  let ?L = "[(8, 0), (8, 3), (8, 4), (8, 5), (8, 6), (8, 8)] :: Move list"
  have ne: "?L \<noteq> []" by simp
  have cp: "currentPlayer tieState = PX" by (simp add: tieState_def)
  from hard_tier_spec[OF wf_tie tie_moves ne, of 0 0] obtain om m sc where
    h: "orderMoves tieState ?L (currentPlayer tieState) = Inr om"
      "getBestMove tieState Hard 0 0 = Inr (Some (m, Some (Fin sc)))"
      "moveScore tieState (currentPlayer tieState) m = Inr sc"
      "\<forall>x\<in>set ?L. \<exists>v. moveScore tieState (currentPlayer tieState) x = Inr v \<and> v \<le> sc"
    by blast
  from h(2) tie_hard have m: "m = (8, 4)" "sc = 1035" by simp_all
  from h(1) tie_order cp have om: "om = [] @ (8, 4) # [(8, 0), (8, 3), (8, 5), (8, 6), (8, 8)]"
    by simp
  from h(4) m have "list_all (\<lambda>x. \<exists>v. moveScore tieState (currentPlayer tieState) x = Inr v \<and> v \<le> 1035) ?L"
    unfolding list_all_iff by simp
  with wf_tie tie_moves ne h(1,2,3) m om show ?thesis by simp
qed

text \<open>
  Claim C6 as stated fails in the position after the 6 legal moves of \<open>tieLog\<close>: the moves
  (8, 0) and (8, 4) both have the maximal score 1035, (8, 0) comes first among the
  available moves, and the tier returns (8, 4), which \<open>orderMoves\<close> puts first.
\<close>

theorem hard_tier_tie_break:
  "reachable tieState \<and> currentPlayer tieState = PX \<and>
   getAvailableMoves tieState = Inr [(8, 0), (8, 3), (8, 4), (8, 5), (8, 6), (8, 8)] \<and>
   map (moveScore tieState PX) [(8, 0), (8, 3), (8, 4), (8, 5), (8, 6), (8, 8)] =
     [Inr 1035, Inr 60, Inr 1035, Inr 84, Inr 111, Inr 111] \<and>
   getBestMove tieState Hard 0 0 = Inr (Some ((8, 4), Some (Fin 1035))) \<and>
   getBestMove tieState Hard 0 0 \<noteq> Inr (Some ((8, 0), Some (Fin 1035)))"
proof -
  have r: "reachable tieState"
    using playLegal_reachable[OF reachable_INITIAL tie_play] .
  have cp: "currentPlayer tieState = PX" by (simp add: tieState_def)
  from r cp tie_moves tie_scores tie_hard show ?thesis by simp
qed

section \<open>Move quality\<close>

text \<open>
  What \<open>analyzeMoveQuality\<close> does with \<open>bestMove\<close>: it leaves the field out when the label is
  \<open>best\<close> or \<open>forced\<close>, and sets it for every other label.
\<close>

lemma analyzeMoveQuality_bestMove:
  "analyzeMoveQuality s m = Inr r \<Longrightarrow>
     (bestMove r = None \<longleftrightarrow> classification r = Best \<or> classification r = Forced)"
  by (auto simp: analyzeMoveQuality_def Let_def split: sum.splits option.splits prod.splits if_splits)

text \<open>
  Claim C7 at the position after the 4 legal moves of \<open>brilliantLog\<close>, for the legal move
  (0, 7): the label is \<open>brilliant\<close> and \<open>bestMove\<close> is set, where the claim has it left out.
\<close>

theorem analyzeMoveQuality_brilliant:
  "reachable brilliantState \<and> isMoveValid brilliantState 0 7 = Inr True \<and>
   analyzeMoveQuality brilliantState (0, 7) =
     Inr \<lparr>classification = Brilliant, score = 1032, bestMove = Some (0, 7)\<rparr>"
proof -
  have r: "reachable brilliantState"
    using playLegal_reachable[OF reachable_INITIAL brilliant_play] .
  from r bri_valid bri_an show ?thesis by simp
qed

end
